theory Spec2Isabelle
  imports Main "HOL-Library.AList" "HOL-Library.Sublist" "HOL-Library.List_Lexorder" "HOL-Library.Char_ord"
begin

section \<open>Data model\<close>

text \<open>
  The exceptions that the modelled code raises or lets through. Every raise of the source
  is a value \<open>Inl e\<close> (for a pure call) or \<open>Some e\<close> (for a call acting on the world).
\<close>

datatype error =
    UnavailableInvalidChannel
  | HTTPError nat
  | FileNotFoundError
  | FileExistsError
  | NotADirectoryError
  | IsADirectoryError
  | JSONDecodeError
  | KeyError
  | AttributeError
  | TypeError
  | EngineError string

text \<open>
  conda's \<open>PackageRecord\<close>, with the attributes the code reads. The field \<open>size\<close> of the
  source is \<open>size_bytes\<close> here. Equality of two records is equality of all fields.
\<close>

record package_record =
  channel :: string
  subdir :: string
  name :: string
  version :: string
  build :: string
  build_number :: nat
  fn :: string
  url :: string
  sha256 :: string
  size_bytes :: nat

text \<open>
  A Python iterable of items. \<open>Sized xs\<close> is a list, tuple or set: it is false in a
  condition exactly when it is empty. \<open>Lazy r\<close> is an iterator or generator object: it
  is always true in a condition, none of its body has run when it is created, and
  consuming it gives the items \<open>Inr xs\<close> or raises \<open>Inl e\<close> at the consumer.
\<close>

datatype 'a iterable = Sized "'a list" | Lazy "error + 'a list"

fun consume :: "'a iterable \<Rightarrow> error + 'a list" where
  "consume (Sized xs) = Inr xs"
| "consume (Lazy r) = r"

fun truthy :: "'a iterable \<Rightarrow> bool" where
  "truthy (Sized xs) = (xs \<noteq> [])"
| "truthy (Lazy r) = True"

section \<open>Grouping utility\<close>

text \<open>
  Modelled from the spec: \<open>conda_local/grouping.py\<close> (\<open>Grouping\<close>, \<open>groupby\<close>) is
  imported by \<open>external.py\<close> and is not among the sources. Per section 4.2 of the
  specification, \<open>groupby\<close> computes the key of each item and appends the item to the
  bucket of that key, creating the bucket on first use; buckets keep insertion order,
  nothing is sorted or deduplicated, and an absent key yields an empty result.
\<close>

type_synonym ('k, 'v) Grouping = "('k \<times> 'v list) list"

fun add_item :: "'k \<Rightarrow> 'v \<Rightarrow> ('k, 'v) Grouping \<Rightarrow> ('k, 'v) Grouping" where
  "add_item k v [] = [(k, [v])]"
| "add_item k v ((k', vs) # g) =
     (if k = k' then (k', vs @ [v]) # g else (k', vs) # add_item k v g)"

definition groupby :: "'v list \<Rightarrow> ('v \<Rightarrow> 'k) \<Rightarrow> ('k, 'v) Grouping" where
  "groupby items key = foldl (\<lambda>g item. add_item (key item) item g) [] items"

definition keys :: "('k, 'v) Grouping \<Rightarrow> 'k list" where
  "keys g = map fst g"

definition bucket :: "('k, 'v) Grouping \<Rightarrow> 'k \<Rightarrow> 'v list" where
  "bucket g k = (case map_of g k of None \<Rightarrow> [] | Some vs \<Rightarrow> vs)"

section \<open>External channel interface: comparing records\<close>

type_synonym record_key = "string \<times> string \<times> string \<times> string \<times> nat"

definition no_channel_key :: "package_record \<Rightarrow> record_key" where
  "no_channel_key record =
     (subdir record, name record, version record, build record, build_number record)"

text \<open>
  \<open>compare_records\<close> of \<open>external.py\<close>. The two Python sets it returns are duplicate-free
  lists here; the order of a Python set is unspecified and nothing below depends on it.
  Grouping consumes each argument, so an iterable that raises does so inside this call.
\<close>

definition compare_records ::
  "package_record iterable \<Rightarrow> package_record iterable
     \<Rightarrow> error + (package_record list \<times> package_record list)" where
  "compare_records left right =
     (case consume left of
        Inl e \<Rightarrow> Inl e
      | Inr ls \<Rightarrow>
         (case consume right of
            Inl e \<Rightarrow> Inl e
          | Inr rs \<Rightarrow>
             (let left_group = groupby ls no_channel_key;
                  right_group = groupby rs no_channel_key;
                  only_in_left = remdups (concat (map (bucket left_group)
                     (filter (\<lambda>k. k \<notin> set (keys right_group)) (keys left_group))));
                  only_in_right = remdups (concat (map (bucket right_group)
                     (filter (\<lambda>k. k \<notin> set (keys left_group)) (keys right_group))))
              in Inr (only_in_left, only_in_right))))"

section \<open>The world: file system, engines and network\<close>

text \<open>
  A path is the list of its components below the root. \<open>Path\<close> parses a string as
  \<open>pathlib.Path\<close> does for the paths used here: components are separated by \<open>/\<close>, empty
  components and \<open>.\<close> are dropped. Subdir names and file names of records are single
  components.
\<close>

type_synonym path = "string list"

fun split_slash :: "string \<Rightarrow> string list" where
  "split_slash [] = [[]]"
| "split_slash (c # cs) =
     (if c = CHR ''/'' then [] # split_slash cs
      else (case split_slash cs of [] \<Rightarrow> [[c]] | p # ps \<Rightarrow> (c # p) # ps))"

definition Path :: "string \<Rightarrow> path" where
  "Path s = filter (\<lambda>c. c \<noteq> [] \<and> c \<noteq> ''.'') (split_slash s)"

definition as_uri :: "path \<Rightarrow> string" where
  "as_uri p = ''file://'' @ (if p = [] then ''/'' else concat (map (\<lambda>c. ''/'' @ c) p))"

text \<open>
  The file system maps paths to nodes; the root is always a directory. The log records,
  in order, the calls that leave the program: HTTP requests, conda's downloader, the
  logger, the reopening of a written file, and conda-build's index builder with the
  archive (entry names and nodes) it is given as patch generator, if any.
  Console output (\<open>Spinner\<close>, \<open>tqdm\<close>, \<open>print\<close>, and the values of the flags that
  only select it) is not modelled.
\<close>

datatype node = File string | Dir

datatype event =
    Http_get string
  | Conda_download string path "string option" "nat option"
  | Log_info path
  | Reopen path
  | Index_build path "(path \<times> node) list option"

record world =
  files :: "(path \<times> node) list"
  log :: "event list"

type_synonym outcome = "error option \<times> world"

definition lookup :: "world \<Rightarrow> path \<Rightarrow> node option" where
  "lookup w p = (if p = [] then Some Dir else map_of (files w) p)"

definition exists_path :: "world \<Rightarrow> path \<Rightarrow> bool" where
  "exists_path w p = (lookup w p \<noteq> None)"

definition is_file :: "world \<Rightarrow> path \<Rightarrow> bool" where
  "is_file w p = (case lookup w p of Some (File b) \<Rightarrow> True | _ \<Rightarrow> False)"

definition is_dir :: "world \<Rightarrow> path \<Rightarrow> bool" where
  "is_dir w p = (lookup w p = Some Dir)"

definition put :: "path \<Rightarrow> node \<Rightarrow> world \<Rightarrow> world" where
  "put p n w = w\<lparr>files := AList.update p n (files w)\<rparr>"

definition emit :: "event \<Rightarrow> world \<Rightarrow> world" where
  "emit ev w = w\<lparr>log := log w @ [ev]\<rparr>"

text \<open>Sequencing: an exception ends the run and keeps the world reached so far.\<close>

definition then_do :: "outcome \<Rightarrow> (world \<Rightarrow> outcome) \<Rightarrow> outcome" where
  "then_do r f = (case r of (Some e, w) \<Rightarrow> (Some e, w) | (None, w) \<Rightarrow> f w)"

fun for_each :: "('a \<Rightarrow> world \<Rightarrow> outcome) \<Rightarrow> 'a list \<Rightarrow> world \<Rightarrow> outcome" where
  "for_each f [] w = (None, w)"
| "for_each f (x # xs) w = then_do (f x w) (for_each f xs)"

text \<open>
  \<open>path.mkdir(parents=True, exist_ok=True)\<close>: every missing directory on the way is
  created; a file in the way raises.
\<close>

fun mkdirs :: "path \<Rightarrow> string list \<Rightarrow> world \<Rightarrow> outcome" where
  "mkdirs base [] w = (None, w)"
| "mkdirs base (c # cs) w =
     (case lookup w (base @ [c]) of
        Some Dir \<Rightarrow> mkdirs (base @ [c]) cs w
      | Some (File b) \<Rightarrow> (Some (if cs = [] then FileExistsError else NotADirectoryError), w)
      | None \<Rightarrow> mkdirs (base @ [c]) cs (put (base @ [c]) Dir w))"

definition mkdir_parents :: "path \<Rightarrow> world \<Rightarrow> outcome" where
  "mkdir_parents p w = mkdirs [] p w"

text \<open>Opening a path for writing needs its parent directory; nothing creates it.\<close>

definition parent_error :: "world \<Rightarrow> path \<Rightarrow> error option" where
  "parent_error w p =
     (case lookup w (butlast p) of
        Some Dir \<Rightarrow> None
      | Some (File b) \<Rightarrow> Some NotADirectoryError
      | None \<Rightarrow> Some FileNotFoundError)"

definition write_bytes :: "path \<Rightarrow> string \<Rightarrow> world \<Rightarrow> outcome" where
  "write_bytes p content w =
     (case lookup w p of
        Some Dir \<Rightarrow> (Some IsADirectoryError, w)
      | _ \<Rightarrow> (case parent_error w p of
                Some e \<Rightarrow> (Some e, w)
              | None \<Rightarrow> (None, put p (File content) w)))"

definition touch :: "path \<Rightarrow> world \<Rightarrow> outcome" where
  "touch p w =
     (case lookup w p of
        Some n \<Rightarrow> (None, w)
      | None \<Rightarrow> (case parent_error w p of
                   Some e \<Rightarrow> (Some e, w)
                 | None \<Rightarrow> (None, put p (File []) w)))"

text \<open>
  \<open>shutil.copy(src, dst)\<close>: a destination that is a directory receives the file under
  the source's base name; otherwise \<open>dst\<close> is opened for writing.
\<close>

definition shutil_copy :: "path \<Rightarrow> path \<Rightarrow> world \<Rightarrow> outcome" where
  "shutil_copy src dst w =
     (case lookup w src of
        None \<Rightarrow> (Some FileNotFoundError, w)
      | Some Dir \<Rightarrow> (Some IsADirectoryError, w)
      | Some (File b) \<Rightarrow> write_bytes (if is_dir w dst then dst @ [last src] else dst) b w)"

text \<open>\<open>root.glob("**/*")\<close>: everything strictly below \<open>root\<close>, directories included.\<close>

definition glob_all :: "world \<Rightarrow> path \<Rightarrow> path list" where
  "glob_all w root = filter (\<lambda>p. strict_prefix root p) (map fst (files w))"

text \<open>A minimal JSON value, as \<open>json.load\<close> returns it.\<close>

datatype jval =
    JNull | JBool bool | JNum int | JStr string | JArr "jval list" | JObj "(string \<times> jval) list"

text \<open>
  What lies outside the repository: conda's context and query engine, the dependency
  finder (\<open>conda_local/deps.py\<close>, imported by \<open>api.py\<close> and not among the sources; only the
  records of \<open>search\<close> are used), channel URL resolution, the HTTP client (status code
  and body), conda's downloader (the bytes it stores, or the exception it raises, given
  the expected hash and size), SHA-256 and the JSON codec.
\<close>

record env =
  context_subdirs :: "string list"
  query_all :: "string \<Rightarrow> string list \<Rightarrow> string list option \<Rightarrow> error + package_record list"
  finder_search :: "string list \<Rightarrow> string list \<Rightarrow> string list \<Rightarrow> error + package_record list"
  all_channel_urls :: "string \<Rightarrow> string \<Rightarrow> string"
  requests_get :: "string \<Rightarrow> nat \<times> string"
  conda_fetch :: "string \<Rightarrow> string option \<Rightarrow> nat option \<Rightarrow> error + string"
  sha256_hexdigest :: "string \<Rightarrow> string"
  json_load :: "string \<Rightarrow> jval option"
  json_dump :: "jval \<Rightarrow> string"

section \<open>External channel interface\<close>

definition PATCH_INSTRUCTIONS :: string where
  "PATCH_INSTRUCTIONS = ''patch_instructions.json''"

text \<open>Collecting the results of a sequence of engine calls; the first exception ends it.\<close>

fun collect :: "('a \<Rightarrow> error + 'b list) \<Rightarrow> 'a list \<Rightarrow> error + 'b list" where
  "collect f [] = Inr []"
| "collect f (x # xs) =
     (case f x of
        Inl e \<Rightarrow> Inl e
      | Inr ys \<Rightarrow> (case collect f xs of Inl e \<Rightarrow> Inl e | Inr zs \<Rightarrow> Inr (ys @ zs)))"

definition get_default_subdirs :: "env \<Rightarrow> string list" where
  "get_default_subdirs E = context_subdirs E"

definition query_channel ::
  "env \<Rightarrow> string \<Rightarrow> string list \<Rightarrow> string list option \<Rightarrow> package_record iterable" where
  "query_channel E chan specs subdirs =
     Lazy (collect (\<lambda>spec. query_all E spec [chan] subdirs) specs)"

definition iter_channel ::
  "env \<Rightarrow> string \<Rightarrow> string list option \<Rightarrow> package_record iterable" where
  "iter_channel E chan subdirs = Lazy (consume (query_channel E chan [''*''] subdirs))"

definition verify_file :: "env \<Rightarrow> path \<Rightarrow> package_record \<Rightarrow> world \<Rightarrow> error + bool" where
  "verify_file E p record w =
     (case lookup w p of
        None \<Rightarrow> Inl FileNotFoundError
      | Some Dir \<Rightarrow> Inl IsADirectoryError
      | Some (File file_bytes) \<Rightarrow>
          Inr (sha256 record = sha256_hexdigest E file_bytes \<and> size_bytes record = length file_bytes))"

text \<open>\<open>conda.exports._download(url, path, sha256, size)\<close>: the call is logged, then it
  raises or stores the bytes at \<open>path\<close>.\<close>

definition conda_download ::
  "env \<Rightarrow> string \<Rightarrow> path \<Rightarrow> string option \<Rightarrow> nat option \<Rightarrow> world \<Rightarrow> outcome" where
  "conda_download E u p sha256_hash sz w =
     (case conda_fetch E u sha256_hash sz of
        Inl e \<Rightarrow> (Some e, emit (Conda_download u p sha256_hash sz) w)
      | Inr content \<Rightarrow> write_bytes p content (emit (Conda_download u p sha256_hash sz) w))"

definition download_package ::
  "env \<Rightarrow> package_record \<Rightarrow> path \<Rightarrow> bool \<Rightarrow> world \<Rightarrow> outcome" where
  "download_package E record destination verify w =
     (let sha256_hash = (if verify then Some (sha256 record) else None);
          sz = (if verify then Some (size_bytes record) else None);
          p = destination @ [subdir record, fn record];
          fetch = (\<lambda>w. then_do (mkdir_parents (butlast p) w)
                     (conda_download E (url record) p sha256_hash sz))
      in if exists_path w p then
           (if verify then
              (case verify_file E p record w of
                 Inl e \<Rightarrow> (Some e, w)
               | Inr ok \<Rightarrow> if ok then (None, w) else fetch (emit (Log_info p) w))
            else (None, w))
         else fetch w)"

text \<open>
  \<open>data["remove"].append(filename)\<close> on the loaded document.
\<close>

fun append_remove :: "string \<Rightarrow> jval \<Rightarrow> error + jval" where
  "append_remove f (JObj kvs) =
     (case map_of kvs ''remove'' of
        None \<Rightarrow> Inl KeyError
      | Some (JArr xs) \<Rightarrow> Inr (JObj (AList.update ''remove'' (JArr (xs @ [JStr f])) kvs))
      | Some v \<Rightarrow> Inl AttributeError)"
| "append_remove f v = Inl TypeError"

fun append_all :: "string list \<Rightarrow> jval \<Rightarrow> error + jval" where
  "append_all [] data = Inr data"
| "append_all (f # fs) data =
     (case append_remove f data of Inl e \<Rightarrow> Inl e | Inr data' \<Rightarrow> append_all fs data')"

text \<open>
  The second half of \<open>fetch_patch_instructions\<close>: the written file is reopened in mode
  \<open>r+\<close>, loaded, extended, and dumped from offset 0 without truncation, so bytes of the
  old content beyond the new text stay.
\<close>

definition add_removals :: "env \<Rightarrow> path \<Rightarrow> package_record iterable \<Rightarrow> world \<Rightarrow> outcome" where
  "add_removals E instructions packages_to_remove w =
     (case lookup w instructions of
        None \<Rightarrow> (Some FileNotFoundError, w)
      | Some Dir \<Rightarrow> (Some IsADirectoryError, w)
      | Some (File old) \<Rightarrow>
         (let w1 = emit (Reopen instructions) w in
          case json_load E old of
            None \<Rightarrow> (Some JSONDecodeError, w1)
          | Some data \<Rightarrow>
             (case consume packages_to_remove of
                Inl e \<Rightarrow> (Some e, w1)
              | Inr packages \<Rightarrow>
                 (case append_all (map fn packages) data of
                    Inl e \<Rightarrow> (Some e, w1)
                  | Inr data' \<Rightarrow>
                     (let new = json_dump E data'
                      in (None, put instructions (File (new @ drop (length new) old)) w1))))))"

definition fetch_patch_instructions ::
  "env \<Rightarrow> string \<Rightarrow> path \<Rightarrow> string \<Rightarrow> package_record iterable option \<Rightarrow> world \<Rightarrow> outcome" where
  "fetch_patch_instructions E chan destination sd packages_to_remove w =
     (let base_url = all_channel_urls E chan sd;
          u = base_url @ ''/'' @ PATCH_INSTRUCTIONS;
          response = requests_get E u;
          w1 = emit (Http_get u) w;
          instructions = destination @ [sd, PATCH_INSTRUCTIONS]
      in if 400 \<le> fst response \<and> fst response < 600 then (Some (HTTPError (fst response)), w1)
         else
           then_do (mkdir_parents destination w1) (\<lambda>w2.
           then_do (mkdir_parents (butlast instructions) w2) (\<lambda>w3.
           then_do (write_bytes instructions (snd response) w3) (\<lambda>w4.
             (case packages_to_remove of
                None \<Rightarrow> (None, w4)
              | Some it \<Rightarrow> if truthy it then add_removals E instructions it w4 else (None, w4))))))"

text \<open>
  \<open>tar.add(target / patch, arcname=patch)\<close>: the node at the path, and everything below
  it, enters the archive under the archive name; a missing path raises.
\<close>

definition tar_add :: "world \<Rightarrow> path \<Rightarrow> path \<Rightarrow> error + (path \<times> node) list" where
  "tar_add w target patch =
     (if exists_path w (target @ patch)
      then Inr (map (\<lambda>(p, n). (patch @ drop (length (target @ patch)) p, n))
                 (filter (\<lambda>(p, n). prefix (target @ patch) p) (files w)))
      else Inl FileNotFoundError)"

definition update_index :: "env \<Rightarrow> path \<Rightarrow> string list option \<Rightarrow> world \<Rightarrow> outcome" where
  "update_index E target subdirs w =
     (let subdirs' = (case subdirs of None \<Rightarrow> get_default_subdirs E | Some s \<Rightarrow> s);
          patches = map (\<lambda>sd. [sd, PATCH_INSTRUCTIONS]) subdirs'
      in if patches \<noteq> [] then
           (case collect (tar_add w target) patches of
              Inl e \<Rightarrow> (Some e, w)
            | Inr tarball \<Rightarrow> (None, emit (Index_build target (Some tarball)) w))
         else (None, emit (Index_build target None) w))"

text \<open>
  A call of \<open>update_index\<close> with a target and keyword arguments. Python binds a keyword
  argument to the parameter of that name and raises \<open>TypeError\<close>, before the body runs,
  for a keyword that names no parameter. The parameters of \<open>update_index\<close> are
  \<open>target\<close>, \<open>subdirs\<close> and \<open>silent\<close>.
\<close>

definition update_index_parameters :: "string list" where
  "update_index_parameters = [''target'', ''subdirs'', ''silent'']"

definition call_update_index ::
  "env \<Rightarrow> path \<Rightarrow> string list \<Rightarrow> string list option \<Rightarrow> world \<Rightarrow> outcome" where
  "call_update_index E target keywords subdirs w =
     (if list_all (\<lambda>k. k \<in> set update_index_parameters) keywords
      then update_index E target subdirs w
      else (Some TypeError, w))"

section \<open>Orchestration API\<close>

text \<open>
  \<open>api.py\<close> and \<open>external.py\<close> are not at the same revision. \<open>api.py\<close> imports
  \<open>download_patch_instructions\<close>, \<open>get_current_subdirs\<close> and \<open>iter_channels\<close>, which
  \<open>external.py\<close> does not define; these three are modelled from the specification
  below. \<open>api.py\<close> also calls \<open>update_index\<close> with the keywords \<open>progress\<close> and
  \<open>subdirs\<close>, and \<open>update_index\<close> of \<open>external.py\<close> has no parameter \<open>progress\<close>: the
  two calls, in \<open>merge\<close> and in \<open>sync\<close>, are modelled as the calls by keyword that
  they are.
\<close>

text \<open>
  An argument of type \<open>OneOrMoreStrings\<close>: one string, or several. Python's
  \<open>list(items)\<close> on a string yields its characters, each as a string of length one.
\<close>

datatype one_or_more = One string | Many "string list"

fun list_of :: "one_or_more \<Rightarrow> string list" where
  "list_of (One s) = map (\<lambda>c. [c]) s"
| "list_of (Many xs) = xs"

fun isinstance_str :: "one_or_more \<Rightarrow> bool" where
  "isinstance_str (One s) = True"
| "isinstance_str (Many xs) = False"

text \<open>
  \<open>_ensure_list\<close>. Its first branch, for a value that is not iterable, cannot be taken
  by a string or a list of strings.
\<close>

definition ensure_list :: "one_or_more \<Rightarrow> string list" where
  "ensure_list items =
     (if isinstance_str items then (case items of One s \<Rightarrow> [s] | Many xs \<Rightarrow> xs)
      else list_of items)"

text \<open>
  Modelled from the spec: \<open>get_current_subdirs\<close> is imported by \<open>api.py\<close> from
  \<open>external.py\<close>, which does not define it. Per section 4.5 of the specification an
  omitted subdir list defaults to the current platform's standard set, which section 4.3
  gives as the subdir list of the engine's runtime context.
\<close>

definition get_current_subdirs :: "env \<Rightarrow> string list" where
  "get_current_subdirs E = context_subdirs E"

definition ensure_subdirs :: "env \<Rightarrow> one_or_more option \<Rightarrow> string list" where
  "ensure_subdirs E subdirs =
     (case subdirs of None \<Rightarrow> get_current_subdirs E | Some s \<Rightarrow> ensure_list s)"

definition ensure_local_channel :: "string \<Rightarrow> world \<Rightarrow> outcome" where
  "ensure_local_channel p w =
     (let noarch_repo = Path p @ [''noarch'', ''repodata.json'']
      in then_do (mkdir_parents (butlast noarch_repo) w) (touch noarch_repo))"

text \<open>
  Modelled from the spec: \<open>iter_channels\<close> is imported by \<open>api.py\<close> from \<open>external.py\<close>,
  which defines only the single-channel \<open>iter_channel\<close>. Per section 4.5 of the
  specification it is the full-channel iteration concatenated across the channels.
\<close>

definition iter_channels :: "env \<Rightarrow> string list \<Rightarrow> string list \<Rightarrow> package_record iterable" where
  "iter_channels E channels subdirs =
     Lazy (collect (\<lambda>chan. consume (iter_channel E chan (Some subdirs))) channels)"

text \<open>
  Modelled from the spec: \<open>download_patch_instructions\<close> is imported by \<open>api.py\<close> from
  \<open>external.py\<close>, which defines only the single-channel \<open>fetch_patch_instructions\<close>. Per
  section 4.5 of the specification it fetches and writes the subdir's patch-instructions
  document into the target; here it does so for each channel of its list in turn.
\<close>

definition download_patch_instructions ::
  "env \<Rightarrow> string list \<Rightarrow> path \<Rightarrow> string \<Rightarrow> world \<Rightarrow> outcome" where
  "download_patch_instructions E channels destination sd w =
     for_each (\<lambda>chan. fetch_patch_instructions E chan destination sd None) channels w"

text \<open>
  \<open>iterate\<close> is a generator function (its body has a \<open>yield\<close>): a call returns the
  generator at once and runs nothing, so the call itself never raises. Normalisation
  and the channel iteration happen when the generator is consumed.
\<close>

definition iterate :: "env \<Rightarrow> one_or_more \<Rightarrow> one_or_more option \<Rightarrow> package_record iterable" where
  "iterate E channels subdirs =
     Lazy (consume (iter_channels E (ensure_list channels) (ensure_subdirs E subdirs)))"

text \<open>\<open>query\<close>: the \<open>graph_file\<close> argument is converted to a path and not used.\<close>

definition query ::
  "env \<Rightarrow> one_or_more \<Rightarrow> one_or_more \<Rightarrow> one_or_more option \<Rightarrow> string option
     \<Rightarrow> error + package_record iterable" where
  "query E channels specs subdirs graph_file =
     (case finder_search E (ensure_list channels) (ensure_subdirs E subdirs) (ensure_list specs) of
        Inl e \<Rightarrow> Inl e
      | Inr records \<Rightarrow> Inr (Sized records))"

text \<open>
  \<open>diff\<close>. The \<open>try\<close> block holds only the call of \<open>iterate\<close>, whose result is
  \<open>attempt\<close>; the handler replaces an \<open>UnavailableInvalidChannel\<close> raised there by the
  empty iterator \<open>iter([])\<close>. The local records are consumed later, by \<open>compare_records\<close>.
\<close>

definition diff ::
  "env \<Rightarrow> string \<Rightarrow> one_or_more \<Rightarrow> one_or_more \<Rightarrow> one_or_more option
     \<Rightarrow> error + (package_record list \<times> package_record list)" where
  "diff E local upstream specs subdirs =
     (let local' = Path local;
          upstream' = ensure_list upstream;
          subdirs' = ensure_subdirs E subdirs;
          specs' = ensure_list specs;
          attempt = Inr (iterate E (One (as_uri local')) (Some (Many subdirs')))
      in case (case attempt of
                 Inl e \<Rightarrow> if e = UnavailableInvalidChannel then Inr (Lazy (Inr [])) else Inl e
               | Inr records \<Rightarrow> Inr records) of
           Inl e \<Rightarrow> Inl e
         | Inr local_records \<Rightarrow>
            (case query E (Many upstream') (Many specs') (Some (Many subdirs')) None of
               Inl e \<Rightarrow> Inl e
             | Inr upstream_records \<Rightarrow>
                (case compare_records local_records upstream_records of
                   Inl e \<Rightarrow> Inl e
                 | Inr (removed, added) \<Rightarrow> Inr (added, removed))))"

definition merge :: "env \<Rightarrow> string \<Rightarrow> string \<Rightarrow> bool \<Rightarrow> world \<Rightarrow> outcome" where
  "merge E local patch index w =
     (let patch' = Path patch;
          local' = Path local
      in then_do
           (for_each (\<lambda>file w. if is_file w file
                                then shutil_copy file (local' @ drop (length patch') file) w
                                else (None, w))
              (glob_all w patch') w)
           (\<lambda>w. if index
                then call_update_index E local' [''progress'', ''subdirs''] (Some []) w
                else (None, w)))"

definition sync ::
  "env \<Rightarrow> one_or_more \<Rightarrow> string \<Rightarrow> one_or_more \<Rightarrow> one_or_more option \<Rightarrow> bool \<Rightarrow> bool
     \<Rightarrow> string \<Rightarrow> world \<Rightarrow> outcome" where
  "sync E channels local specs subdirs index verify patch w =
     (let channels' = ensure_list channels;
          local' = Path local;
          subdirs' = ensure_subdirs E subdirs;
          destination = (if patch = [] then local' else Path patch)
      in then_do (ensure_local_channel local w) (\<lambda>w.
         then_do (mkdir_parents destination w) (\<lambda>w.
           (case diff E local (Many channels') specs (Some (Many subdirs')) of
              Inl e \<Rightarrow> (Some e, w)
            | Inr (added_records, removed) \<Rightarrow>
               then_do (for_each (download_patch_instructions E channels' destination) subdirs' w) (\<lambda>w.
               then_do (for_each (\<lambda>record. download_package E record destination verify)
                          (sort_key fn added_records) w) (\<lambda>w.
                 if index \<and> patch = []
                 then call_update_index E local' [''progress'', ''subdirs''] (Some subdirs') w
                 else (None, w)))))))"

section \<open>Observing a run\<close>

text \<open>
  What a run added to the log, by kind: the paths given to conda's downloader, the
  directories given to the index builder, and the URLs requested.
\<close>

fun download_targets :: "event list \<Rightarrow> path list" where
  "download_targets [] = []"
| "download_targets (Conda_download u p h z # evs) = p # download_targets evs"
| "download_targets (ev # evs) = download_targets evs"

fun index_targets :: "event list \<Rightarrow> path list" where
  "index_targets [] = []"
| "index_targets (Index_build p g # evs) = p # index_targets evs"
| "index_targets (ev # evs) = index_targets evs"

fun http_gets :: "event list \<Rightarrow> string list" where
  "http_gets [] = []"
| "http_gets (Http_get u # evs) = u # http_gets evs"
| "http_gets (ev # evs) = http_gets evs"

text \<open>
  \<open>touches C D w w'\<close>: from \<open>w\<close> to \<open>w'\<close> a path keeps its node, unless it is one of
  the paths \<open>C\<close>, or it is one of the paths \<open>D\<close> and nothing was there in \<open>w\<close>.
\<close>

definition touches :: "path set \<Rightarrow> path set \<Rightarrow> world \<Rightarrow> world \<Rightarrow> bool" where
  "touches C D w w' = (\<forall>p. lookup w' p = lookup w p \<or> p \<in> C \<or> (p \<in> D \<and> lookup w p = None))"

text \<open>
  The URL that \<open>fetch_patch_instructions\<close> requests for a channel and a subdir, the path
  it writes, and the responses that \<open>raise_for_status\<close> turns into an exception.
\<close>

definition instructions_url :: "env \<Rightarrow> string \<Rightarrow> string \<Rightarrow> string" where
  "instructions_url E chan sd = all_channel_urls E chan sd @ ''/'' @ PATCH_INSTRUCTIONS"

definition instructions_path :: "path \<Rightarrow> string \<Rightarrow> path" where
  "instructions_path destination sd = destination @ [sd, PATCH_INSTRUCTIONS]"

definition non_success :: "nat \<Rightarrow> bool" where
  "non_success status = (400 \<le> status \<and> status < 600)"

text \<open>
  \<open>http_errors_raised E r evs\<close>: a run that requested the URLs in \<open>evs\<close> and ended with
  \<open>r\<close> has raised the error of every request that was answered without success.
\<close>

definition http_errors_raised :: "env \<Rightarrow> error option \<Rightarrow> event list \<Rightarrow> bool" where
  "http_errors_raised E r evs =
     (\<forall>u \<in> set (http_gets evs). non_success (fst (requests_get E u))
         \<longrightarrow> r = Some (HTTPError (fst (requests_get E u))))"

text \<open>The directory that \<open>sync\<close> writes to: the mirror, or the patch directory when given.\<close>

definition write_target :: "string \<Rightarrow> string \<Rightarrow> path" where
  "write_target local patch = (if patch = [] then Path local else Path patch)"

section \<open>Example configuration\<close>

text \<open>
  A small upstream and a small mirror, used to evaluate the model: the upstream resolves
  to the packages \<open>b\<close> and \<open>a\<close>, the mirror at \<open>/m\<close> already lists \<open>a\<close> under its own
  channel name, and the engines answer as test doubles.
\<close>

definition rec_a :: package_record where
  "rec_a = \<lparr>channel = ''up'', subdir = ''noarch'', name = ''a'', version = ''1'', build = ''0'',
     build_number = 0, fn = ''a.tar'', url = ''u/a'', sha256 = ''haa'', size_bytes = 2\<rparr>"

definition rec_b :: package_record where
  "rec_b = \<lparr>channel = ''up'', subdir = ''noarch'', name = ''b'', version = ''1'', build = ''0'',
     build_number = 0, fn = ''b.tar'', url = ''u/b'', sha256 = ''hbb'', size_bytes = 2\<rparr>"

definition rec_a_local :: package_record where
  "rec_a_local = rec_a\<lparr>channel := ''file:///m'', url := ''file:///m/noarch/a.tar'', sha256 := ''0''\<rparr>"

definition demo_env :: env where
  "demo_env = \<lparr>context_subdirs = [''noarch''],
     query_all = (\<lambda>spec channels subdirs.
        if channels = [''file:///m''] then Inr [rec_a_local] else Inr []),
     finder_search = (\<lambda>channels subdirs specs. Inr [rec_b, rec_a]),
     all_channel_urls = (\<lambda>c sd. c @ ''/'' @ sd),
     requests_get = (\<lambda>u. (200, ''{ }'')),
     conda_fetch = (\<lambda>u sha sz. Inr (drop 2 u @ drop 2 u)),
     sha256_hexdigest = (\<lambda>b. ''h'' @ b),
     json_load = (\<lambda>b. if b = ''{}'' \<or> b = ''{ }'' then Some (JObj []) else None),
     json_dump = (\<lambda>v. ''{}'')\<rparr>"

definition broken_env :: env where
  "broken_env = demo_env\<lparr>query_all := (\<lambda>spec channels subdirs. Inl UnavailableInvalidChannel)\<rparr>"

definition empty_world :: world where
  "empty_world = \<lparr>files = [], log = []\<rparr>"

text \<open>The world after a sync of the subdir \<open>linux\<close> into the patch directory \<open>/p\<close>.\<close>

definition linux_patch_world :: world where
  "linux_patch_world = \<lparr>files =
     [([''m''], Dir), ([''m'', ''noarch''], Dir),
      ([''m'', ''noarch'', ''repodata.json''], File []),
      ([''p''], Dir), ([''p'', ''linux''], Dir),
      ([''p'', ''linux'', ''patch_instructions.json''], File ''{ }''),
      ([''p'', ''noarch''], Dir),
      ([''p'', ''noarch'', ''b.tar''], File ''bb'')],
     log =
     [Http_get ''up/linux/patch_instructions.json'',
      Conda_download ''u/b'' [''p'', ''noarch'', ''b.tar''] (Some ''hbb'') (Some 2)]\<rparr>"

text \<open>The world after a sync of the default subdir \<open>noarch\<close> into \<open>/p\<close>.\<close>

definition noarch_patch_world :: world where
  "noarch_patch_world = \<lparr>files =
     [([''m''], Dir), ([''m'', ''noarch''], Dir),
      ([''m'', ''noarch'', ''repodata.json''], File []),
      ([''p''], Dir), ([''p'', ''noarch''], Dir),
      ([''p'', ''noarch'', ''patch_instructions.json''], File ''{ }''),
      ([''p'', ''noarch'', ''b.tar''], File ''bb'')],
     log =
     [Http_get ''up/noarch/patch_instructions.json'',
      Conda_download ''u/b'' [''p'', ''noarch'', ''b.tar''] (Some ''hbb'') (Some 2)]\<rparr>"

definition mirror_world :: world where
  "mirror_world = \<lparr>files =
     [([''m''], Dir), ([''m'', ''noarch''], Dir),
      ([''m'', ''noarch'', ''repodata.json''], File []),
      ([''m'', ''noarch'', ''b.tar''], File ''bb'')],
     log = []\<rparr>"

text \<open>
  A mirror that lists no packages yet, an upstream that answers every request for patch
  instructions with status 404, and the worlds reached by a sync of the fresh mirror in
  place and into the patch directory \<open>/p\<close>.
\<close>

definition fresh_env :: env where
  "fresh_env = demo_env\<lparr>query_all := (\<lambda>spec channels subdirs. Inr [])\<rparr>"

definition not_found_env :: env where
  "not_found_env = fresh_env\<lparr>requests_get := (\<lambda>u. (404, []))\<rparr>"

definition fresh_mirror_world :: world where
  "fresh_mirror_world = \<lparr>files =
     [([''m''], Dir), ([''m'', ''noarch''], Dir),
      ([''m'', ''noarch'', ''repodata.json''], File []),
      ([''m'', ''noarch'', ''patch_instructions.json''], File ''{ }''),
      ([''m'', ''noarch'', ''a.tar''], File ''aa''),
      ([''m'', ''noarch'', ''b.tar''], File ''bb'')],
     log =
     [Http_get ''up/noarch/patch_instructions.json'',
      Conda_download ''u/a'' [''m'', ''noarch'', ''a.tar''] (Some ''haa'') (Some 2),
      Conda_download ''u/b'' [''m'', ''noarch'', ''b.tar''] (Some ''hbb'') (Some 2)]\<rparr>"

text \<open>
  The world after a sync of the fresh mirror in place for the subdirs \<open>linux\<close> and
  \<open>noarch\<close>; both added packages belong to \<open>noarch\<close>.
\<close>

definition two_subdirs_world :: world where
  "two_subdirs_world = \<lparr>files =
     [([''m''], Dir), ([''m'', ''noarch''], Dir),
      ([''m'', ''noarch'', ''repodata.json''], File []),
      ([''m'', ''linux''], Dir),
      ([''m'', ''linux'', ''patch_instructions.json''], File ''{ }''),
      ([''m'', ''noarch'', ''patch_instructions.json''], File ''{ }''),
      ([''m'', ''noarch'', ''a.tar''], File ''aa''),
      ([''m'', ''noarch'', ''b.tar''], File ''bb'')],
     log =
     [Http_get ''up/linux/patch_instructions.json'',
      Http_get ''up/noarch/patch_instructions.json'',
      Conda_download ''u/a'' [''m'', ''noarch'', ''a.tar''] (Some ''haa'') (Some 2),
      Conda_download ''u/b'' [''m'', ''noarch'', ''b.tar''] (Some ''hbb'') (Some 2)]\<rparr>"

definition fresh_patch_world :: world where
  "fresh_patch_world = \<lparr>files =
     [([''m''], Dir), ([''m'', ''noarch''], Dir),
      ([''m'', ''noarch'', ''repodata.json''], File []),
      ([''p''], Dir), ([''p'', ''noarch''], Dir),
      ([''p'', ''noarch'', ''patch_instructions.json''], File ''{ }''),
      ([''p'', ''noarch'', ''a.tar''], File ''aa''),
      ([''p'', ''noarch'', ''b.tar''], File ''bb'')],
     log =
     [Http_get ''up/noarch/patch_instructions.json'',
      Conda_download ''u/a'' [''p'', ''noarch'', ''a.tar''] (Some ''haa'') (Some 2),
      Conda_download ''u/b'' [''p'', ''noarch'', ''b.tar''] (Some ''hbb'') (Some 2)]\<rparr>"

definition not_found_world :: world where
  "not_found_world = \<lparr>files =
     [([''m''], Dir), ([''m'', ''noarch''], Dir),
      ([''m'', ''noarch'', ''repodata.json''], File []), ([''p''], Dir)],
     log = [Http_get ''up/noarch/patch_instructions.json'']\<rparr>"

section \<open>Properties\<close>

subsection \<open>Grouping\<close>

lemma keys_Nil: "keys [] = []" by (simp add: keys_def)
lemma bucket_Nil: "bucket [] k = []" by (simp add: bucket_def)

lemma keys_add_item: "set (keys (add_item k v g)) = insert k (set (keys g))"
proof (induction g)
  case Nil
  show ?case by (simp add: keys_def)
next
  case (Cons p g)
  obtain k' vs where p: "p = (k', vs)" by (cases p)
  show ?case using Cons p by (cases "k = k'") (auto simp: keys_def)
qed

lemma map_of_add_item:
  "map_of (add_item k v g) k' =
     (if k' = k then Some ((case map_of g k of None \<Rightarrow> [] | Some vs \<Rightarrow> vs) @ [v]) else map_of g k')"
proof (induction g arbitrary: k')
  case Nil
  show ?case by simp
next
  case (Cons p g)
  obtain k0 vs where p: "p = (k0, vs)" by (cases p)
  show ?case using Cons p by simp
qed

lemma bucket_add_item:
  "bucket (add_item k v g) k' = (if k' = k then bucket g k @ [v] else bucket g k')"
  by (simp add: bucket_def map_of_add_item)

lemma foldl_add_item:
  "set (keys (foldl (\<lambda>g item. add_item (f item) item g) g xs)) = set (keys g) \<union> f ` set xs \<and>
   (\<forall>k. set (bucket (foldl (\<lambda>g item. add_item (f item) item g) g xs) k)
        = set (bucket g k) \<union> {x \<in> set xs. f x = k})"
proof (induction xs arbitrary: g)
  case Nil
  then show ?case by simp
next
  case (Cons x xs)
  show ?case
    using Cons.IH [of "add_item (f x) x g"]
    by (auto simp: keys_add_item bucket_add_item)
qed

lemma keys_groupby: "set (keys (groupby xs f)) = f ` set xs"
  using foldl_add_item [of f "[]" xs] by (simp add: groupby_def keys_Nil)

lemma bucket_groupby: "set (bucket (groupby xs f) k) = {x \<in> set xs. f x = k}"
  using foldl_add_item [of f "[]" xs] by (simp add: groupby_def keys_Nil bucket_Nil)

lemma only_in_one_side:
  "set (remdups (concat (map (bucket (groupby xs f))
      (filter (\<lambda>k. k \<notin> set (keys (groupby ys f))) (keys (groupby xs f))))))
   = {x \<in> set xs. f x \<notin> f ` set ys}"
proof -
  have "set (concat (map (bucket (groupby xs f))
      (filter (\<lambda>k. k \<notin> set (keys (groupby ys f))) (keys (groupby xs f)))))
     = (\<Union>k \<in> {k \<in> f ` set xs. k \<notin> f ` set ys}. {x \<in> set xs. f x = k})"
    by (simp add: keys_groupby bucket_groupby)
  also have "\<dots> = {x \<in> set xs. f x \<notin> f ` set ys}"
  proof (intro set_eqI iffI)
    fix x assume "x \<in> (\<Union>k \<in> {k \<in> f ` set xs. k \<notin> f ` set ys}. {x \<in> set xs. f x = k})"
    then show "x \<in> {x \<in> set xs. f x \<notin> f ` set ys}" by auto
  next
    fix x assume "x \<in> {x \<in> set xs. f x \<notin> f ` set ys}"
    then have "x \<in> set xs" and "f x \<notin> f ` set ys" by simp_all
    then have "f x \<in> {k \<in> f ` set xs. k \<notin> f ` set ys}" and "x \<in> {y \<in> set xs. f y = f x}"
      by simp_all
    then show "x \<in> (\<Union>k \<in> {k \<in> f ` set xs. k \<notin> f ` set ys}. {x \<in> set xs. f x = k})"
      by (rule UN_I)
  qed
  finally show ?thesis by simp
qed

subsection \<open>Comparing records\<close>

lemma compare_records_consumed:
  "consume left = Inr ls \<Longrightarrow> consume right = Inr rs \<Longrightarrow>
   compare_records left right =
     Inr (remdups (concat (map (bucket (groupby ls no_channel_key))
            (filter (\<lambda>k. k \<notin> set (keys (groupby rs no_channel_key))) (keys (groupby ls no_channel_key))))),
          remdups (concat (map (bucket (groupby rs no_channel_key))
            (filter (\<lambda>k. k \<notin> set (keys (groupby ls no_channel_key))) (keys (groupby rs no_channel_key))))))"
  by (simp add: compare_records_def Let_def)

lemma same_key_fields:
  "(no_channel_key x = no_channel_key r) =
     (subdir x = subdir r \<and> name x = name r \<and> version x = version r \<and>
      build x = build r \<and> build_number x = build_number r)"
  by (simp add: no_channel_key_def)

lemma key_absent_fields:
  "(no_channel_key r \<notin> no_channel_key ` set xs) =
     (\<not> (\<exists>x \<in> set xs. subdir x = subdir r \<and> name x = name r \<and> version x = version r \<and>
                          build x = build r \<and> build_number x = build_number r))"
proof -
  have "(no_channel_key r \<in> no_channel_key ` set xs) =
          (\<exists>x \<in> set xs. no_channel_key x = no_channel_key r)"
    by (metis (no_types) image_iff)
  then show ?thesis by (simp add: same_key_fields)
qed

text \<open>
  Claim C2. \<open>compare_records\<close> compares records by the five fields subdir, name,
  version, build and build number alone: a record is in the first returned set exactly
  when it is on the left and no record on the right agrees with it in all five fields,
  in the second exactly when it is on the right and no record on the left agrees with
  it in all five; so two records that agree in the five fields, one on each side, are
  in neither set, whatever their channels, URLs or hashes.
\<close>

theorem compare_records_by_key:
  assumes "consume left = Inr ls" and "consume right = Inr rs"
  shows "\<exists>only_in_left only_in_right.
           compare_records left right = Inr (only_in_left, only_in_right) \<and>
           set only_in_left =
             {r \<in> set ls. \<not> (\<exists>x \<in> set rs. subdir x = subdir r \<and> name x = name r \<and>
                  version x = version r \<and> build x = build r \<and> build_number x = build_number r)} \<and>
           set only_in_right =
             {r \<in> set rs. \<not> (\<exists>x \<in> set ls. subdir x = subdir r \<and> name x = name r \<and>
                  version x = version r \<and> build x = build r \<and> build_number x = build_number r)} \<and>
           (\<forall>a \<in> set ls. \<forall>b \<in> set rs.
              subdir a = subdir b \<and> name a = name b \<and> version a = version b \<and>
              build a = build b \<and> build_number a = build_number b \<longrightarrow>
              a \<notin> set only_in_left \<and> a \<notin> set only_in_right \<and>
              b \<notin> set only_in_left \<and> b \<notin> set only_in_right)"
proof -
  let ?l = "remdups (concat (map (bucket (groupby ls no_channel_key))
            (filter (\<lambda>k. k \<notin> set (keys (groupby rs no_channel_key))) (keys (groupby ls no_channel_key)))))"
  let ?r = "remdups (concat (map (bucket (groupby rs no_channel_key))
            (filter (\<lambda>k. k \<notin> set (keys (groupby ls no_channel_key))) (keys (groupby rs no_channel_key)))))"
  have res: "compare_records left right = Inr (?l, ?r)"
    using assms by (rule compare_records_consumed)
  have l: "set ?l = {r \<in> set ls. \<not> (\<exists>x \<in> set rs. subdir x = subdir r \<and> name x = name r \<and>
                  version x = version r \<and> build x = build r \<and> build_number x = build_number r)}"
    unfolding only_in_one_side key_absent_fields by (rule refl)
  have r: "set ?r = {r \<in> set rs. \<not> (\<exists>x \<in> set ls. subdir x = subdir r \<and> name x = name r \<and>
                  version x = version r \<and> build x = build r \<and> build_number x = build_number r)}"
    unfolding only_in_one_side key_absent_fields by (rule refl)
  have same: "\<forall>a \<in> set ls. \<forall>b \<in> set rs.
              subdir a = subdir b \<and> name a = name b \<and> version a = version b \<and>
              build a = build b \<and> build_number a = build_number b \<longrightarrow>
              a \<notin> set ?l \<and> a \<notin> set ?r \<and> b \<notin> set ?l \<and> b \<notin> set ?r"
  proof (intro ballI impI)
    fix a b
    assume a: "a \<in> set ls" and b: "b \<in> set rs"
      and k: "subdir a = subdir b \<and> name a = name b \<and> version a = version b \<and>
              build a = build b \<and> build_number a = build_number b"
    have al: "a \<notin> set ?l" unfolding l using b k by auto
    have br: "b \<notin> set ?r" unfolding r using a k by auto
    have ar: "a \<notin> set ?r" unfolding r using a by auto
    have bl: "b \<notin> set ?l" unfolding l using b by auto
    from al ar bl br show "a \<notin> set ?l \<and> a \<notin> set ?r \<and> b \<notin> set ?l \<and> b \<notin> set ?r"
      by simp
  qed
  from res l r same show ?thesis by blast
qed

text \<open>
  The witness: the mirror lists \<open>a\<close> under its own channel, URL and hash. Upstream has
  \<open>a\<close> itself and five records that each differ from \<open>a\<close> in exactly one of the five
  fields. Neither copy of \<open>a\<close> is in a returned set, and each of the five is only on
  the right.
\<close>

theorem compare_records_by_key_witness:
  "consume (Sized [rec_a_local]) = Inr [rec_a_local] \<and>
   consume (Sized [rec_a, rec_a\<lparr>subdir := ''linux''\<rparr>, rec_a\<lparr>name := ''c''\<rparr>,
      rec_a\<lparr>version := ''2''\<rparr>, rec_a\<lparr>build := ''1''\<rparr>, rec_a\<lparr>build_number := 1\<rparr>])
     = Inr [rec_a, rec_a\<lparr>subdir := ''linux''\<rparr>, rec_a\<lparr>name := ''c''\<rparr>,
      rec_a\<lparr>version := ''2''\<rparr>, rec_a\<lparr>build := ''1''\<rparr>, rec_a\<lparr>build_number := 1\<rparr>] \<and>
   channel rec_a_local \<noteq> channel rec_a \<and> url rec_a_local \<noteq> url rec_a \<and>
   sha256 rec_a_local \<noteq> sha256 rec_a \<and>
   (\<exists>only_in_left only_in_right.
      compare_records (Sized [rec_a_local])
        (Sized [rec_a, rec_a\<lparr>subdir := ''linux''\<rparr>, rec_a\<lparr>name := ''c''\<rparr>,
           rec_a\<lparr>version := ''2''\<rparr>, rec_a\<lparr>build := ''1''\<rparr>, rec_a\<lparr>build_number := 1\<rparr>])
        = Inr (only_in_left, only_in_right) \<and>
      set only_in_left = {} \<and>
      set only_in_right = {rec_a\<lparr>subdir := ''linux''\<rparr>, rec_a\<lparr>name := ''c''\<rparr>,
           rec_a\<lparr>version := ''2''\<rparr>, rec_a\<lparr>build := ''1''\<rparr>, rec_a\<lparr>build_number := 1\<rparr>})"
proof -
  let ?rs = "[rec_a, rec_a\<lparr>subdir := ''linux''\<rparr>, rec_a\<lparr>name := ''c''\<rparr>,
      rec_a\<lparr>version := ''2''\<rparr>, rec_a\<lparr>build := ''1''\<rparr>, rec_a\<lparr>build_number := 1\<rparr>]"
  have c: "channel rec_a_local \<noteq> channel rec_a \<and> url rec_a_local \<noteq> url rec_a \<and>
           sha256 rec_a_local \<noteq> sha256 rec_a"
    by (simp add: rec_a_local_def rec_a_def)
  have h1: "consume (Sized [rec_a_local]) = Inr [rec_a_local]" by simp
  have h2: "consume (Sized ?rs) = Inr ?rs" by simp
  from compare_records_by_key [OF h1 h2] obtain l r where
    res: "compare_records (Sized [rec_a_local]) (Sized ?rs) = Inr (l, r)" and
    sl: "set l = {r \<in> set [rec_a_local]. \<not> (\<exists>x \<in> set ?rs. subdir x = subdir r \<and> name x = name r \<and>
                  version x = version r \<and> build x = build r \<and> build_number x = build_number r)}" and
    sr: "set r = {r \<in> set ?rs. \<not> (\<exists>x \<in> set [rec_a_local]. subdir x = subdir r \<and> name x = name r \<and>
                  version x = version r \<and> build x = build r \<and> build_number x = build_number r)}"
    by blast
  have el: "set l = {}"
    unfolding sl by (simp add: rec_a_local_def rec_a_def)
  have er: "set r = {rec_a\<lparr>subdir := ''linux''\<rparr>, rec_a\<lparr>name := ''c''\<rparr>,
           rec_a\<lparr>version := ''2''\<rparr>, rec_a\<lparr>build := ''1''\<rparr>, rec_a\<lparr>build_number := 1\<rparr>}"
    unfolding sr by (auto simp: rec_a_local_def rec_a_def)
  from res el er c h1 h2 show ?thesis by blast
qed

lemma compare_records_example:
  "compare_records (Sized [rec_a_local]) (Sized [rec_b, rec_a]) = Inr ([], [rec_b])"
  by (simp add: compare_records_def groupby_def keys_def bucket_def no_channel_key_def
        rec_a_def rec_b_def rec_a_local_def)

subsection \<open>Singular and plural arguments\<close>

lemma ensure_list_One: "ensure_list (One s) = [s]"
  by (simp add: ensure_list_def)

lemma ensure_list_Many: "ensure_list (Many xs) = xs"
  by (simp add: ensure_list_def)

lemma ensure_subdirs_One: "ensure_subdirs E (Some (One s)) = ensure_subdirs E (Some (Many [s]))"
  by (simp add: ensure_subdirs_def ensure_list_One ensure_list_Many)

lemma chars_of_string: "([s] = map (\<lambda>c. [c]) s) = (length s = 1)"
  by (cases s) auto

text \<open>
  Claim C9. A string given as \<open>channels\<close>, \<open>subdirs\<close> or \<open>specs\<close> is normalised to the
  one-element list of that string, never to the list of its characters (the two
  coincide only for a string of length one), and each operation that takes such an
  argument (\<open>iterate\<close>, \<open>query\<close>, \<open>diff\<close>, \<open>sync\<close>; \<open>merge\<close> takes none) returns the same
  result for the string as for the one-element list.
\<close>

theorem singular_plural_normalization:
  "ensure_list (One s) = [s] \<and>
   ensure_list (One s) = ensure_list (Many [s]) \<and>
   (ensure_list (One s) = list_of (One s)) = (length s = 1) \<and>
   iterate E (One s) subdirs = iterate E (Many [s]) subdirs \<and>
   iterate E channels (Some (One s)) = iterate E channels (Some (Many [s])) \<and>
   query E (One s) specs subdirs graph_file = query E (Many [s]) specs subdirs graph_file \<and>
   query E channels (One s) subdirs graph_file = query E channels (Many [s]) subdirs graph_file \<and>
   query E channels specs (Some (One s)) graph_file = query E channels specs (Some (Many [s])) graph_file \<and>
   diff E local (One s) specs subdirs = diff E local (Many [s]) specs subdirs \<and>
   diff E local upstream (One s) subdirs = diff E local upstream (Many [s]) subdirs \<and>
   diff E local upstream specs (Some (One s)) = diff E local upstream specs (Some (Many [s])) \<and>
   sync E (One s) local specs subdirs index verify patch w
     = sync E (Many [s]) local specs subdirs index verify patch w \<and>
   sync E channels local (One s) subdirs index verify patch w
     = sync E channels local (Many [s]) subdirs index verify patch w \<and>
   sync E channels local specs (Some (One s)) index verify patch w
     = sync E channels local specs (Some (Many [s])) index verify patch w"
proof -
  have o: "ensure_list (One s) = [s]"
    by (rule ensure_list_One)
  have a: "ensure_list (One s) = ensure_list (Many [s])"
    by (simp add: ensure_list_One ensure_list_Many)
  have b: "ensure_subdirs E (Some (One s)) = ensure_subdirs E (Some (Many [s]))"
    by (rule ensure_subdirs_One)
  have c: "(ensure_list (One s) = list_of (One s)) = (length s = 1)"
    using chars_of_string [of s] by (simp add: ensure_list_One)
  have i1: "iterate E (One s) subdirs = iterate E (Many [s]) subdirs"
    by (simp add: iterate_def a)
  have i2: "iterate E channels (Some (One s)) = iterate E channels (Some (Many [s]))"
    by (simp add: iterate_def b)
  have q1: "query E (One s) specs subdirs graph_file = query E (Many [s]) specs subdirs graph_file"
    by (simp add: query_def a)
  have q2: "query E channels (One s) subdirs graph_file = query E channels (Many [s]) subdirs graph_file"
    by (simp add: query_def a)
  have q3: "query E channels specs (Some (One s)) graph_file
              = query E channels specs (Some (Many [s])) graph_file"
    by (simp add: query_def b)
  have d1: "diff E local (One s) specs subdirs = diff E local (Many [s]) specs subdirs"
    by (simp add: diff_def a)
  have d2: "diff E local upstream (One s) subdirs = diff E local upstream (Many [s]) subdirs"
    for upstream subdirs
    by (simp add: diff_def a)
  have d3: "diff E local upstream specs (Some (One s)) = diff E local upstream specs (Some (Many [s]))"
    by (simp add: diff_def b)
  have s1: "sync E (One s) local specs subdirs index verify patch w
              = sync E (Many [s]) local specs subdirs index verify patch w"
    by (simp add: sync_def a)
  have s2: "sync E channels local (One s) subdirs index verify patch w
              = sync E channels local (Many [s]) subdirs index verify patch w"
    by (simp add: sync_def d2)
  have s3: "sync E channels local specs (Some (One s)) index verify patch w
              = sync E channels local specs (Some (Many [s])) index verify patch w"
    by (simp add: sync_def b)
  from o a c i1 i2 q1 q2 q3 d1 d2 d3 s1 s2 s3 show ?thesis
    by (intro conjI)
qed


subsection \<open>The file system and the log\<close>

lemma lookup_put: "lookup (put p n w) q = (if q = [] then Some Dir else if q = p then Some n else lookup w q)"
  by (simp add: lookup_def put_def update_conv')

lemma log_put: "log (put p n w) = log w"
  by (simp add: put_def)

lemma lookup_emit: "lookup (emit ev w) p = lookup w p"
  by (simp add: lookup_def emit_def)

lemma log_emit: "log (emit ev w) = log w @ [ev]"
  by (simp add: emit_def)

lemma log_mkdirs: "log (snd (mkdirs base cs w)) = log w"
  by (induction base cs w rule: mkdirs.induct) (auto simp: log_put split: option.splits node.splits)

lemma log_write_bytes: "log (snd (write_bytes p content w)) = log w"
  by (simp add: write_bytes_def log_put split: option.splits node.splits)

lemma log_conda_download:
  "log (snd (conda_download E u p h z w)) = log w @ [Conda_download u p h z]"
  by (simp add: conda_download_def log_write_bytes log_emit split: sum.splits)

lemma log_fetch_package:
  "log (snd (then_do (mkdir_parents q w) (conda_download E u p h z))) =
     log w @ (case fst (mkdir_parents q w) of None \<Rightarrow> [Conda_download u p h z] | Some e \<Rightarrow> [])"
proof (cases "mkdir_parents q w")
  case (Pair r w')
  have "log w' = log w" using log_mkdirs [of "[]" q w] Pair by (simp add: mkdir_parents_def)
  then show ?thesis using Pair by (cases r) (simp_all add: then_do_def log_conda_download)
qed

subsection \<open>Downloading a package\<close>

text \<open>
  Claim C7. \<open>download_package\<close> targets \<open>destination/subdir/filename\<close>. When a file is
  there and \<open>verify\<close> is set, the call returns at once, leaving the world as it was,
  exactly when the SHA-256 digest and the size of the file equal those of the record;
  otherwise it logs the path, creates the parent directories and calls the downloader
  for that path. When a file is there and \<open>verify\<close> is not set, it returns at once.
  When nothing is there, it creates the parent directories and calls the downloader.
\<close>

theorem download_package_cases:
  "(lookup w (destination @ [subdir record, fn record]) = Some (File b) \<and> verify \<longrightarrow>
      ((download_package E record destination verify w = (None, w))
         = (sha256_hexdigest E b = sha256 record \<and> length b = size_bytes record)) \<and>
      (\<not> (sha256_hexdigest E b = sha256 record \<and> length b = size_bytes record) \<longrightarrow>
         download_package E record destination verify w =
           then_do (mkdir_parents (destination @ [subdir record])
                      (emit (Log_info (destination @ [subdir record, fn record])) w))
             (conda_download E (url record) (destination @ [subdir record, fn record])
                (Some (sha256 record)) (Some (size_bytes record))))) \<and>
   (lookup w (destination @ [subdir record, fn record]) = Some (File b) \<and> \<not> verify \<longrightarrow>
      download_package E record destination verify w = (None, w)) \<and>
   (lookup w (destination @ [subdir record, fn record]) = None \<longrightarrow>
      download_package E record destination verify w =
        then_do (mkdir_parents (destination @ [subdir record]) w)
          (conda_download E (url record) (destination @ [subdir record, fn record])
             (if verify then Some (sha256 record) else None)
             (if verify then Some (size_bytes record) else None)))"
proof (intro conjI impI)
  assume h: "lookup w (destination @ [subdir record, fn record]) = Some (File b) \<and> verify"
  let ?p = "destination @ [subdir record, fn record]"
  let ?redo = "then_do (mkdir_parents (destination @ [subdir record]) (emit (Log_info ?p) w))
             (conda_download E (url record) ?p (Some (sha256 record)) (Some (size_bytes record)))"
  have bl: "butlast ?p = destination @ [subdir record]" by (simp add: butlast_append)
  have ok: "sha256_hexdigest E b = sha256 record \<and> length b = size_bytes record \<Longrightarrow>
            download_package E record destination verify w = (None, w)"
    using h by (auto simp: download_package_def Let_def exists_path_def verify_file_def)
  have bad: "\<not> (sha256_hexdigest E b = sha256 record \<and> length b = size_bytes record) \<Longrightarrow>
            download_package E record destination verify w = ?redo"
    using h bl by (auto simp: download_package_def Let_def exists_path_def verify_file_def)
  have "length (log (snd ?redo)) > length (log w)"
    by (simp add: log_fetch_package log_emit)
  then have ne: "?redo \<noteq> (None, w)" by auto
  show "(download_package E record destination verify w = (None, w))
         = (sha256_hexdigest E b = sha256 record \<and> length b = size_bytes record)"
    using ok bad ne by metis
  show "download_package E record destination verify w = ?redo"
    if "\<not> (sha256_hexdigest E b = sha256 record \<and> length b = size_bytes record)"
    using bad that by simp
next
  assume "lookup w (destination @ [subdir record, fn record]) = Some (File b) \<and> \<not> verify"
  then show "download_package E record destination verify w = (None, w)"
    by (simp add: download_package_def Let_def exists_path_def)
next
  assume "lookup w (destination @ [subdir record, fn record]) = None"
  then show "download_package E record destination verify w =
        then_do (mkdir_parents (destination @ [subdir record]) w)
          (conda_download E (url record) (destination @ [subdir record, fn record])
             (if verify then Some (sha256 record) else None)
             (if verify then Some (size_bytes record) else None))"
    by (simp add: download_package_def Let_def exists_path_def butlast_append)
qed


theorem download_package_cases_witness:
  "(lookup mirror_world ([''m''] @ [subdir rec_b, fn rec_b]) = Some (File ''bb'') \<and>
    sha256_hexdigest demo_env ''bb'' = sha256 rec_b \<and> length ''bb'' = size_bytes rec_b \<and>
    download_package demo_env rec_b [''m''] True mirror_world = (None, mirror_world)) \<and>
   (lookup mirror_world ([''m''] @ [subdir (rec_b\<lparr>sha256 := ''0''\<rparr>), fn (rec_b\<lparr>sha256 := ''0''\<rparr>)])
      = Some (File ''bb'') \<and>
    sha256_hexdigest demo_env ''bb'' \<noteq> sha256 (rec_b\<lparr>sha256 := ''0''\<rparr>) \<and>
    download_package demo_env (rec_b\<lparr>sha256 := ''0''\<rparr>) [''m''] True mirror_world \<noteq> (None, mirror_world) \<and>
    log (snd (download_package demo_env (rec_b\<lparr>sha256 := ''0''\<rparr>) [''m''] True mirror_world))
      = [Log_info [''m'', ''noarch'', ''b.tar''],
         Conda_download ''u/b'' [''m'', ''noarch'', ''b.tar''] (Some ''0'') (Some 2)]) \<and>
   (lookup mirror_world ([''m''] @ [subdir (rec_b\<lparr>sha256 := ''0''\<rparr>), fn (rec_b\<lparr>sha256 := ''0''\<rparr>)])
      = Some (File ''bb'') \<and>
    download_package demo_env (rec_b\<lparr>sha256 := ''0''\<rparr>) [''m''] False mirror_world = (None, mirror_world)) \<and>
   (lookup mirror_world ([''m''] @ [subdir rec_a, fn rec_a]) = None \<and>
    log (snd (download_package demo_env rec_a [''m''] True mirror_world))
      = [Conda_download ''u/a'' [''m'', ''noarch'', ''a.tar''] (Some ''haa'') (Some 2)] \<and>
    lookup (snd (download_package demo_env rec_a [''m''] True mirror_world)) [''m'', ''noarch'', ''a.tar'']
      = Some (File ''aa''))"
proof -
  let ?bad = "rec_b\<lparr>sha256 := ''0''\<rparr>"
  have f: "lookup mirror_world ([''m''] @ [subdir rec_b, fn rec_b]) = Some (File ''bb'')"
    by (simp add: lookup_def mirror_world_def rec_b_def)
  have f': "lookup mirror_world ([''m''] @ [subdir ?bad, fn ?bad]) = Some (File ''bb'')"
    by (simp add: lookup_def mirror_world_def rec_b_def)
  have n: "lookup mirror_world ([''m''] @ [subdir rec_a, fn rec_a]) = None"
    by (simp add: lookup_def mirror_world_def rec_a_def)
  have m: "sha256_hexdigest demo_env ''bb'' = sha256 rec_b \<and> length ''bb'' = size_bytes rec_b"
    by (simp add: demo_env_def rec_b_def)
  have m': "sha256_hexdigest demo_env ''bb'' \<noteq> sha256 ?bad"
    by (simp add: demo_env_def)
  have c1: "download_package demo_env rec_b [''m''] True mirror_world = (None, mirror_world)"
    using download_package_cases [of mirror_world "[''m'']" rec_b "''bb''" True demo_env] f m
    by blast
  have c2: "download_package demo_env ?bad [''m''] True mirror_world \<noteq> (None, mirror_world)"
    using download_package_cases [of mirror_world "[''m'']" ?bad "''bb''" True demo_env] f' m'
    by blast
  have c2': "download_package demo_env ?bad [''m''] True mirror_world =
           then_do (mkdir_parents ([''m''] @ [subdir ?bad])
                      (emit (Log_info ([''m''] @ [subdir ?bad, fn ?bad])) mirror_world))
             (conda_download demo_env (url ?bad) ([''m''] @ [subdir ?bad, fn ?bad])
                (Some (sha256 ?bad)) (Some (size_bytes ?bad)))"
    using download_package_cases [of mirror_world "[''m'']" ?bad "''bb''" True demo_env] f' m'
    by blast
  have l2: "log (snd (download_package demo_env ?bad [''m''] True mirror_world))
      = [Log_info [''m'', ''noarch'', ''b.tar''],
         Conda_download ''u/b'' [''m'', ''noarch'', ''b.tar''] (Some ''0'') (Some 2)]"
    unfolding c2'
    by (simp add: log_fetch_package log_emit)
       (simp add: rec_b_def mirror_world_def lookup_def mkdir_parents_def emit_def)
  have c3: "download_package demo_env ?bad [''m''] False mirror_world = (None, mirror_world)"
    using download_package_cases [of mirror_world "[''m'']" ?bad "''bb''" False demo_env] f'
    by blast
  have c4: "download_package demo_env rec_a [''m''] True mirror_world =
        then_do (mkdir_parents ([''m''] @ [subdir rec_a]) mirror_world)
          (conda_download demo_env (url rec_a) ([''m''] @ [subdir rec_a, fn rec_a])
             (if True then Some (sha256 rec_a) else None)
             (if True then Some (size_bytes rec_a) else None))"
    using download_package_cases [of mirror_world "[''m'']" rec_a "''bb''" True demo_env] n
    by blast
  have l4: "log (snd (download_package demo_env rec_a [''m''] True mirror_world))
      = [Conda_download ''u/a'' [''m'', ''noarch'', ''a.tar''] (Some ''haa'') (Some 2)]"
    unfolding c4
    by (simp add: log_fetch_package)
       (simp add: rec_a_def mirror_world_def lookup_def mkdir_parents_def)
  have f4: "lookup (snd (download_package demo_env rec_a [''m''] True mirror_world)) [''m'', ''noarch'', ''a.tar'']
      = Some (File ''aa'')"
    unfolding c4
    by (simp add: rec_a_def mirror_world_def demo_env_def lookup_def mkdir_parents_def then_do_def
          conda_download_def write_bytes_def parent_error_def emit_def put_def)
  from f f' n m m' c1 c2 l2 c3 l4 f4 show ?thesis
    by blast
qed

subsection \<open>Evaluating the example configuration\<close>

lemmas model_defs = sync_def diff_def merge_def iterate_def query_def iter_channels_def iter_channel_def
  query_channel_def compare_records_def groupby_def keys_def bucket_def no_channel_key_def
  ensure_list_def ensure_subdirs_def get_current_subdirs_def get_default_subdirs_def
  ensure_local_channel_def download_patch_instructions_def fetch_patch_instructions_def
  add_removals_def download_package_def conda_download_def verify_file_def update_index_def tar_add_def
  glob_all_def shutil_copy_def touch_def write_bytes_def parent_error_def mkdir_parents_def
  then_do_def emit_def put_def lookup_def exists_path_def is_file_def is_dir_def Path_def as_uri_def
  PATCH_INSTRUCTIONS_def call_update_index_def update_index_parameters_def Let_def

lemmas demo_defs = demo_env_def empty_world_def rec_a_def rec_b_def rec_a_local_def

subsection \<open>The difference between mirror and upstream\<close>

text \<open>
  When the local channel can be read, \<open>diff\<close> returns as added the upstream records
  whose key no local record has, and as removed the local records whose key no
  upstream record has.
\<close>

lemma diff_readable:
  assumes loc: "consume (iterate E (One (as_uri (Path local))) (Some (Many (ensure_subdirs E subdirs))))
             = Inr ls"
    and up: "finder_search E (ensure_list upstream) (ensure_subdirs E subdirs) (ensure_list specs)
             = Inr us"
  shows "\<exists>added removed. diff E local upstream specs subdirs = Inr (added, removed) \<and>
           set added = {r \<in> set us. no_channel_key r \<notin> no_channel_key ` set ls} \<and>
           set removed = {r \<in> set ls. no_channel_key r \<notin> no_channel_key ` set us}"
proof -
  let ?it = "iterate E (One (as_uri (Path local))) (Some (Many (ensure_subdirs E subdirs)))"
  have q: "query E (Many (ensure_list upstream)) (Many (ensure_list specs))
             (Some (Many (ensure_subdirs E subdirs))) None = Inr (Sized us)"
    using up by (simp add: query_def ensure_list_def ensure_subdirs_def)
  have c: "compare_records ?it (Sized us) =
     Inr (remdups (concat (map (bucket (groupby ls no_channel_key))
            (filter (\<lambda>k. k \<notin> set (keys (groupby us no_channel_key))) (keys (groupby ls no_channel_key))))),
          remdups (concat (map (bucket (groupby us no_channel_key))
            (filter (\<lambda>k. k \<notin> set (keys (groupby ls no_channel_key))) (keys (groupby us no_channel_key))))))"
    using loc by (intro compare_records_consumed) simp_all
  have "diff E local upstream specs subdirs =
     Inr (remdups (concat (map (bucket (groupby us no_channel_key))
            (filter (\<lambda>k. k \<notin> set (keys (groupby ls no_channel_key))) (keys (groupby us no_channel_key))))),
          remdups (concat (map (bucket (groupby ls no_channel_key))
            (filter (\<lambda>k. k \<notin> set (keys (groupby us no_channel_key))) (keys (groupby ls no_channel_key))))))"
    using q c by (simp add: diff_def Let_def)
  moreover note only_in_one_side [of us no_channel_key ls] only_in_one_side [of ls no_channel_key us]
  ultimately show ?thesis by blast
qed

text \<open>
  Claim C1. With readable channels \<open>diff\<close> returns the upstream records whose key is
  absent locally and the local records whose key is absent upstream. The claim also
  says that an unavailable local channel counts as no local records. The code does not
  do that: the \<open>try\<close> block of \<open>diff\<close> encloses only the creation of the generator, and
  the exception is raised when \<open>compare_records\<close> consumes it, outside the block. In the
  example the upstream resolves to \<open>b\<close> and \<open>a\<close>, the local channel is unavailable, and
  \<open>diff\<close> raises instead of returning both records as added.
\<close>

theorem diff_propagates_unavailable_channel:
  "consume (iterate broken_env (One (as_uri (Path ''m''))) (Some (Many [''noarch''])))
     = Inl UnavailableInvalidChannel \<and>
   query broken_env (One ''up'') (One ''a'') None None = Inr (Sized [rec_b, rec_a]) \<and>
   compare_records (Lazy (Inr [])) (Sized [rec_b, rec_a]) = Inr ([], [rec_b, rec_a]) \<and>
   diff broken_env ''m'' (One ''up'') (One ''a'') None = Inl UnavailableInvalidChannel"
  by (simp add: model_defs demo_defs broken_env_def)

subsection \<open>Merging a patch directory\<close>

text \<open>
  Claim C3. After \<open>merge\<close>, every file of the patch directory is to be found under the
  mirror, with the directories it needs created by \<open>merge\<close>. The code copies with
  \<open>shutil.copy\<close> and creates no directory: for the patch that a sync of the subdir
  \<open>linux\<close> produces, and a mirror that has only \<open>noarch\<close>, the copy of
  \<open>linux/patch_instructions.json\<close> raises and nothing is merged.
\<close>

theorem merge_raises_on_new_subdir:
  "sync demo_env (One ''up'') ''m'' (One ''a'') (Some (One ''linux'')) False True ''p'' empty_world
     = (None, linux_patch_world) \<and>
   lookup linux_patch_world [''p'', ''linux'', ''patch_instructions.json''] = Some (File ''{ }'') \<and>
   lookup linux_patch_world [''m'', ''linux''] = None \<and>
   merge demo_env ''m'' ''p'' False linux_patch_world = (Some FileNotFoundError, linux_patch_world) \<and>
   lookup (snd (merge demo_env ''m'' ''p'' False linux_patch_world))
     [''m'', ''linux'', ''patch_instructions.json''] = None"
  by (simp add: model_defs demo_defs linux_patch_world_def)

text \<open>
  Claim C5, as stated, fails twice. In the example the patch of the subdir \<open>noarch\<close> is
  merged with \<open>index\<close> set. The copy succeeds and the mirror then holds
  \<open>noarch/patch_instructions.json\<close>; the index update that follows is called with the
  keyword \<open>progress\<close>, which \<open>update_index\<close> does not have, so \<open>merge\<close> ends in
  \<open>TypeError\<close> and no index is built. And \<open>update_index\<close> itself, given the empty subdir
  list on that world, calls the index builder with no patch generator, although the
  patch-instruction file is there.
\<close>

theorem merge_index_without_patch_generator:
  "fst (merge demo_env ''m'' ''p'' True noarch_patch_world) = Some TypeError \<and>
   index_targets (log (snd (merge demo_env ''m'' ''p'' True noarch_patch_world))) = [] \<and>
   lookup (snd (merge demo_env ''m'' ''p'' True noarch_patch_world))
     [''m'', ''noarch'', ''patch_instructions.json''] = Some (File ''{ }'') \<and>
   update_index demo_env [''m''] (Some []) (snd (merge demo_env ''m'' ''p'' True noarch_patch_world))
     = (None, emit (Index_build [''m''] None) (snd (merge demo_env ''m'' ''p'' True noarch_patch_world)))"
  by (simp add: model_defs demo_defs noarch_patch_world_def)

lemma then_do_return: "then_do (then_do r (\<lambda>w. (None, w))) f = then_do r f"
  by (cases r) (simp add: then_do_def split: option.splits)

text \<open>
  Claim C5, amended. The index update that \<open>merge\<close> with \<open>index\<close> set requests, after the
  copy, is \<open>update_index\<close> on the mirror with an empty subdir list; under an empty
  subdir list \<open>update_index\<close> builds no archive and calls the index builder with no
  patch generator, whatever patch-instruction files the mirror holds.
\<close>

theorem merge_index_empty_subdirs:
  "update_index E target (Some []) w = (None, emit (Index_build target None) w) \<and>
   merge E local patch True w =
     then_do (merge E local patch False w)
       (call_update_index E (Path local) [''progress'', ''subdirs''] (Some []))"
proof -
  have u: "update_index E target (Some []) w = (None, emit (Index_build target None) w)"
    by (simp add: update_index_def)
  have m: "merge E local patch True w =
     then_do (merge E local patch False w)
       (call_update_index E (Path local) [''progress'', ''subdirs''] (Some []))"
    by (simp add: merge_def Let_def then_do_return)
  from u m show ?thesis by simp
qed

subsection \<open>Patch instructions and packages to remove\<close>

text \<open>
  Claim C10, as stated, fails for an iterable that is an iterator: an empty iterator is
  true in the condition \<open>if packages_to_remove\<close>, so the file is reopened and rewritten
  from its start. In the example the document \<open>{ }\<close> is loaded and dumped as \<open>{}\<close> over
  the first two bytes, and the third stays.
\<close>

theorem empty_iterator_reopens_instructions:
  "consume (Lazy (Inr [])) = Inr ([] :: package_record list) \<and>
   fetch_patch_instructions demo_env ''up'' [''p''] ''noarch'' None empty_world =
     (None, \<lparr>files = [([''p''], Dir), ([''p'', ''noarch''], Dir),
                      ([''p'', ''noarch'', ''patch_instructions.json''], File ''{ }'')],
             log = [Http_get ''up/noarch/patch_instructions.json'']\<rparr>) \<and>
   fetch_patch_instructions demo_env ''up'' [''p''] ''noarch'' (Some (Lazy (Inr []))) empty_world =
     (None, \<lparr>files = [([''p''], Dir), ([''p'', ''noarch''], Dir),
                      ([''p'', ''noarch'', ''patch_instructions.json''], File ''{}}'')],
             log = [Http_get ''up/noarch/patch_instructions.json'',
                    Reopen [''p'', ''noarch'', ''patch_instructions.json'']]\<rparr>)"
  by (simp add: model_defs demo_defs)

text \<open>
  Claim C10, amended. With \<open>packages_to_remove\<close> bound to an empty list, tuple or set,
  \<open>fetch_patch_instructions\<close> does exactly what it does with \<open>packages_to_remove\<close>
  absent: the written file is not reopened, and stays as received from upstream.
\<close>

theorem empty_collection_like_absent:
  "fetch_patch_instructions E chan destination sd (Some (Sized [])) w
     = fetch_patch_instructions E chan destination sd None w"
  by (simp add: fetch_patch_instructions_def Let_def)

subsection \<open>Effects of the file-system operations\<close>

lemma download_targets_append [simp]:
  "download_targets (xs @ ys) = download_targets xs @ download_targets ys"
  by (induction xs rule: download_targets.induct) simp_all

lemma index_targets_append [simp]:
  "index_targets (xs @ ys) = index_targets xs @ index_targets ys"
  by (induction xs rule: index_targets.induct) simp_all

lemma http_gets_append [simp]: "http_gets (xs @ ys) = http_gets xs @ http_gets ys"
  by (induction xs rule: http_gets.induct) simp_all

lemma lookup_root [simp]: "lookup w [] = Some Dir"
  by (simp add: lookup_def)

lemma touches_refl: "touches C D w w"
  by (simp add: touches_def)

lemma touches_trans: "touches C D w w1 \<Longrightarrow> touches C D w1 w2 \<Longrightarrow> touches C D w w2"
  unfolding touches_def by metis

lemma touches_mono: "touches C D w w' \<Longrightarrow> C \<subseteq> C' \<Longrightarrow> D \<subseteq> D' \<Longrightarrow> touches C' D' w w'"
  unfolding touches_def by blast

lemma touches_same_files: "files w' = files w \<Longrightarrow> touches C D w w'"
  by (simp add: touches_def lookup_def)

lemma touches_emit: "touches C D w (emit ev w)"
  by (simp add: touches_def lookup_emit)

lemma touches_keeps: "touches C D w w' \<Longrightarrow> lookup w p = Some n \<Longrightarrow> p \<notin> C \<Longrightarrow> lookup w' p = Some n"
  unfolding touches_def by (metis option.distinct(1))

lemma then_doE:
  assumes "then_do (f w) g = (r, w2)"
  obtains (ok) w1 where "f w = (None, w1)" and "g w1 = (r, w2)"
        | (raised) e where "f w = (Some e, w2)" and "r = Some e"
proof (cases "f w")
  case (Pair r1 w1)
  show ?thesis
  proof (cases r1)
    case None
    with Pair assms have "g w1 = (r, w2)" by (simp add: then_do_def)
    with Pair None show ?thesis by (auto intro: ok)
  next
    case (Some e)
    with Pair assms have "r = Some e" and "w2 = w1" by (simp_all add: then_do_def)
    with Pair Some show ?thesis by (auto intro: raised)
  qed
qed

lemma touches_mkdirs: "touches {} {q. prefix q (base @ cs)} w (snd (mkdirs base cs w))"
proof (induction base cs w rule: mkdirs.induct)
  case (1 base w)
  show ?case by (simp add: touches_refl)
next
  case (2 base c cs w)
  show ?case
  proof (cases "lookup w (base @ [c])")
    case None
    have a: "touches {} {q. prefix q (base @ c # cs)} w (put (base @ [c]) Dir w)"
      using None by (auto simp: touches_def lookup_put)
    have "touches {} {q. prefix q ((base @ [c]) @ cs)} (put (base @ [c]) Dir w)
            (snd (mkdirs (base @ [c]) cs (put (base @ [c]) Dir w)))"
      using None by (rule "2.IH"(1))
    then have b: "touches {} {q. prefix q (base @ c # cs)} (put (base @ [c]) Dir w)
            (snd (mkdirs (base @ [c]) cs (put (base @ [c]) Dir w)))"
      by simp
    from touches_trans [OF a b] None show ?thesis by simp
  next
    case (Some n)
    show ?thesis
    proof (cases n)
      case (File b)
      with Some show ?thesis by (simp add: touches_refl)
    next
      case Dir
      have "touches {} {q. prefix q ((base @ [c]) @ cs)} w (snd (mkdirs (base @ [c]) cs w))"
        using Some Dir by (rule "2.IH"(2))
      with Some Dir show ?thesis by simp
    qed
  qed
qed

lemma mkdirs_makes_dir:
  "lookup w base = Some Dir \<Longrightarrow> fst (mkdirs base cs w) = None \<Longrightarrow>
   lookup (snd (mkdirs base cs w)) (base @ cs) = Some Dir"
proof (induction base cs w rule: mkdirs.induct)
  case (1 base w)
  then show ?case by simp
next
  case (2 base c cs w)
  show ?case
  proof (cases "lookup w (base @ [c])")
    case None
    have "lookup (put (base @ [c]) Dir w) (base @ [c]) = Some Dir"
      by (simp add: lookup_put)
    moreover have "fst (mkdirs (base @ [c]) cs (put (base @ [c]) Dir w)) = None"
      using "2.prems"(2) None by simp
    ultimately have "lookup (snd (mkdirs (base @ [c]) cs (put (base @ [c]) Dir w))) ((base @ [c]) @ cs) = Some Dir"
      using None by (intro "2.IH"(1))
    with None show ?thesis by simp
  next
    case (Some n)
    show ?thesis
    proof (cases n)
      case (File b)
      with Some "2.prems" show ?thesis by simp
    next
      case Dir
      have "fst (mkdirs (base @ [c]) cs w) = None"
        using "2.prems"(2) Some Dir by simp
      with Some Dir have "lookup (snd (mkdirs (base @ [c]) cs w)) ((base @ [c]) @ cs) = Some Dir"
        by (intro "2.IH"(2)) simp_all
      with Some Dir show ?thesis by simp
    qed
  qed
qed

lemma mkdir_parents_run:
  assumes "mkdir_parents p w = (r, w')"
  shows "log w' = log w" and "touches {} {q. prefix q p} w w'"
    and "r = None \<Longrightarrow> lookup w' p = Some Dir"
proof -
  from assms have w': "w' = snd (mkdirs [] p w)" and r: "r = fst (mkdirs [] p w)"
    by (simp_all add: mkdir_parents_def)
  show "log w' = log w" unfolding w' by (rule log_mkdirs)
  show "touches {} {q. prefix q p} w w'" unfolding w' using touches_mkdirs [of "[]" p w] by simp
  show "lookup w' p = Some Dir" if "r = None"
    using mkdirs_makes_dir [of w "[]" p] that r w' by (simp add: lookup_def)
qed

lemma touches_put_new: "lookup w p = None \<Longrightarrow> touches C (insert p D) w (put p n w)"
  by (simp add: touches_def lookup_put)

lemma touches_put: "touches (insert p C) D w (put p n w)"
  by (simp add: touches_def lookup_put)

lemma write_bytes_cases:
  assumes "write_bytes p content w = (r, w')"
  shows "(r = None \<and> w' = put p (File content) w \<and> p \<noteq> []) \<or> (r \<noteq> None \<and> w' = w)"
proof (cases "p = []")
  case True
  with assms show ?thesis by (auto simp: write_bytes_def)
next
  case False
  with assms show ?thesis
    by (auto simp: write_bytes_def split: option.splits node.splits)
qed

lemma write_bytes_run:
  assumes "write_bytes p content w = (r, w')"
  shows "log w' = log w" and "touches {p} {} w w'"
    and "r = None \<Longrightarrow> lookup w' p = Some (File content)"
proof -
  show "log w' = log w" using log_write_bytes [of p content w] assms by simp
  show "touches {p} {} w w'"
    using write_bytes_cases [OF assms] touches_put [of p "{}" "{}" w] touches_refl by auto
  show "lookup w' p = Some (File content)" if "r = None"
    using write_bytes_cases [OF assms] that by (auto simp: lookup_put)
qed

lemma touch_cases:
  assumes "touch p w = (r, w')"
  shows "w' = w \<or> (lookup w p = None \<and> w' = put p (File []) w)"
  using assms by (auto simp: touch_def split: option.splits)

lemma touch_run:
  assumes "touch p w = (r, w')"
  shows "log w' = log w" and "touches {} {p} w w'"
proof -
  show "log w' = log w" using touch_cases [OF assms] by (auto simp: log_put)
  show "touches {} {p} w w'"
    using touch_cases [OF assms] touches_put_new [of w p "{}" "{}"] touches_refl by auto
qed

lemma ensure_local_channel_run:
  assumes "ensure_local_channel local w = (r, w')"
  shows "log w' = log w"
    and "touches {} {q. prefix q (Path local @ [''noarch'', ''repodata.json''])} w w'"
proof -
  let ?repo = "Path local @ [''noarch'', ''repodata.json'']"
  let ?D = "{q. prefix q ?repo}"
  from assms have run: "then_do (mkdir_parents (butlast ?repo) w) (touch ?repo) = (r, w')"
    by (simp add: ensure_local_channel_def Let_def)
  have sub: "{q. prefix q (butlast ?repo)} \<subseteq> ?D"
    by (auto simp: butlast_append intro: prefix_order.trans)
  from run show "log w' = log w"
  proof (cases rule: then_doE)
    case (ok w1)
    with mkdir_parents_run(1) [OF ok(1)] touch_run(1) [OF ok(2)] show ?thesis by simp
  next
    case (raised e)
    with mkdir_parents_run(1) [OF raised(1)] show ?thesis by simp
  qed
  from run show "touches {} ?D w w'"
  proof (cases rule: then_doE)
    case (ok w1)
    have "touches {} ?D w w1"
      using mkdir_parents_run(2) [OF ok(1)] sub by (rule touches_mono [OF _ subset_refl])
    moreover have "touches {} ?D w1 w'"
      using touch_run(2) [OF ok(2)] by (rule touches_mono) auto
    ultimately show ?thesis by (rule touches_trans)
  next
    case (raised e)
    show ?thesis
      using mkdir_parents_run(2) [OF raised(1)] sub by (rule touches_mono [OF _ subset_refl])
  qed
qed

subsection \<open>Effects of the channel operations\<close>

lemma touches_weaken:
  "touches C D w w' \<Longrightarrow> C \<subseteq> C' \<Longrightarrow> D \<subseteq> C' \<union> D' \<Longrightarrow> touches C' D' w w'"
  unfolding touches_def by blast

lemma http_errors_raised_Nil: "http_errors_raised E r []"
  by (simp add: http_errors_raised_def)

lemma http_errors_raised_no_gets: "http_gets evs = [] \<Longrightarrow> http_errors_raised E r evs"
  by (simp add: http_errors_raised_def)

lemma http_errors_raised_append:
  "http_errors_raised E None evs1 \<Longrightarrow> http_errors_raised E r evs2 \<Longrightarrow>
   http_errors_raised E r (evs1 @ evs2)"
  by (auto simp: http_errors_raised_def)

lemma fetch_patch_instructions_None:
  "fetch_patch_instructions E chan destination sd None w =
     (if non_success (fst (requests_get E (instructions_url E chan sd)))
      then (Some (HTTPError (fst (requests_get E (instructions_url E chan sd)))),
            emit (Http_get (instructions_url E chan sd)) w)
      else then_do (mkdir_parents destination (emit (Http_get (instructions_url E chan sd)) w)) (\<lambda>w2.
           then_do (mkdir_parents (butlast (instructions_path destination sd)) w2) (\<lambda>w3.
           then_do (write_bytes (instructions_path destination sd)
                      (snd (requests_get E (instructions_url E chan sd))) w3) (\<lambda>w4. (None, w4)))))"
  by (simp add: fetch_patch_instructions_def Let_def non_success_def instructions_url_def
        instructions_path_def)

lemma fetch_patch_instructions_run:
  assumes "fetch_patch_instructions E chan destination sd None w = (r, w')"
  shows "log w' = log w @ [Http_get (instructions_url E chan sd)]"
    and "touches {instructions_path destination sd} {q. prefix q (destination @ [sd])} w w'"
    and "r = None \<Longrightarrow> lookup w' (instructions_path destination sd)
            = Some (File (snd (requests_get E (instructions_url E chan sd))))"
    and "http_errors_raised E r [Http_get (instructions_url E chan sd)]"
proof -
  let ?u = "instructions_url E chan sd"
  let ?p = "instructions_path destination sd"
  let ?w1 = "emit (Http_get ?u) w"
  let ?C = "{?p}" and ?D = "{q. prefix q (destination @ [sd])}"
  have bl: "butlast ?p = destination @ [sd]"
    by (simp add: instructions_path_def butlast_append)
  have subD: "{q. prefix q destination} \<subseteq> ?C \<union> ?D"
    by (auto intro: prefix_order.trans)
  show "log w' = log w @ [Http_get ?u]"
   and "touches ?C ?D w w'"
   and "r = None \<Longrightarrow> lookup w' ?p = Some (File (snd (requests_get E ?u)))"
   and "http_errors_raised E r [Http_get ?u]"
  proof -
    consider (bad) "non_success (fst (requests_get E ?u))" | (good) "\<not> non_success (fst (requests_get E ?u))"
      by blast
    then have "log w' = log w @ [Http_get ?u] \<and> touches ?C ?D w w' \<and>
       (r = None \<longrightarrow> lookup w' ?p = Some (File (snd (requests_get E ?u)))) \<and>
       http_errors_raised E r [Http_get ?u]"
    proof cases
      case bad
      with assms have "r = Some (HTTPError (fst (requests_get E ?u)))" and "w' = ?w1"
        by (simp_all add: fetch_patch_instructions_None)
      then show ?thesis
        by (simp add: log_emit touches_emit http_errors_raised_def)
    next
      case good
      then have he: "http_errors_raised E r [Http_get ?u]"
        by (simp add: http_errors_raised_def)
      from good assms have run:
        "then_do (mkdir_parents destination ?w1) (\<lambda>w2.
           then_do (mkdir_parents (butlast ?p) w2) (\<lambda>w3.
             then_do (write_bytes ?p (snd (requests_get E ?u)) w3) (\<lambda>w4. (None, w4)))) = (r, w')"
        by (simp add: fetch_patch_instructions_None)
      have t0: "touches ?C ?D w ?w1" by (rule touches_emit)
      from run show ?thesis
      proof (cases rule: then_doE)
        case (raised e)
        from mkdir_parents_run(1,2) [OF raised(1)] raised(2) t0 he subD show ?thesis
          by (auto simp: log_emit intro: touches_trans touches_weaken)
      next
        case (ok w2)
        have l2: "log w2 = log w @ [Http_get ?u]"
          using mkdir_parents_run(1) [OF ok(1)] by (simp add: log_emit)
        have t2: "touches ?C ?D w w2"
          using t0 mkdir_parents_run(2) [OF ok(1)] subD
          by (auto intro: touches_trans touches_weaken)
        from ok(2) show ?thesis
        proof (cases rule: then_doE)
          case (raised e)
          have "touches ?C ?D w2 w'"
            using mkdir_parents_run(2) [OF raised(1)] bl by (auto intro: touches_weaken)
          with mkdir_parents_run(1) [OF raised(1)] raised(2) l2 t2 he show ?thesis
            by (auto intro: touches_trans)
        next
          case ok3: (ok w3)
          have l3: "log w3 = log w @ [Http_get ?u]"
            using mkdir_parents_run(1) [OF ok3(1)] l2 by simp
          have "touches ?C ?D w2 w3"
            using mkdir_parents_run(2) [OF ok3(1)] bl by (auto intro: touches_weaken)
          with t2 have t3: "touches ?C ?D w w3" by (rule touches_trans)
          from ok3(2) show ?thesis
          proof (cases rule: then_doE)
            case (raised e)
            have "touches ?C ?D w3 w'"
              using write_bytes_run(2) [OF raised(1)] by (auto intro: touches_weaken)
            with write_bytes_run(1) [OF raised(1)] raised(2) l3 t3 he show ?thesis
              by (auto intro: touches_trans)
          next
            case ok4: (ok w4)
            from ok4(2) have e: "r = None" "w' = w4" by simp_all
            have "touches ?C ?D w3 w4"
              using write_bytes_run(2) [OF ok4(1)] by (auto intro: touches_weaken)
            with t3 have "touches ?C ?D w w4" by (rule touches_trans)
            with write_bytes_run(1,3) [OF ok4(1)] e l3 he show ?thesis
              by simp
          qed
        qed
      qed
    qed
    then show "log w' = log w @ [Http_get ?u]"
      and "touches ?C ?D w w'"
      and "r = None \<Longrightarrow> lookup w' ?p = Some (File (snd (requests_get E ?u)))"
      and "http_errors_raised E r [Http_get ?u]"
      by simp_all
  qed
qed

lemma instructions_path_inject [simp]:
  "(instructions_path destination sd = instructions_path destination sd') = (sd = sd')"
  by (simp add: instructions_path_def)

lemma download_patch_instructions_run:
  "download_patch_instructions E chans destination sd w = (r, w') \<Longrightarrow>
   \<exists>evs. log w' = log w @ evs \<and> download_targets evs = [] \<and> index_targets evs = [] \<and>
     touches {instructions_path destination sd} {q. prefix q (destination @ [sd])} w w' \<and>
     http_errors_raised E r evs \<and>
     (r = None \<longrightarrow>
        (\<forall>c \<in> set chans. instructions_url E c sd \<in> set (http_gets evs)) \<and>
        (chans \<noteq> [] \<longrightarrow> lookup w' (instructions_path destination sd)
            = Some (File (snd (requests_get E (instructions_url E (last chans) sd))))))"
proof (induction chans arbitrary: w)
  case Nil
  then have "r = None" and "w' = w" by (simp_all add: download_patch_instructions_def)
  then show ?case by (simp add: touches_refl http_errors_raised_Nil)
next
  case (Cons c cs)
  let ?f = "\<lambda>chan. fetch_patch_instructions E chan destination sd None"
  let ?u = "instructions_url E c sd"
  let ?C = "{instructions_path destination sd}" and ?D = "{q. prefix q (destination @ [sd])}"
  from Cons.prems have run: "then_do (?f c w) (for_each ?f cs) = (r, w')"
    by (simp add: download_patch_instructions_def)
  from run show ?case
  proof (cases rule: then_doE)
    case (raised e)
    note f = fetch_patch_instructions_run [OF raised(1)]
    have "log w' = log w @ [Http_get ?u]" by (rule f(1))
    moreover have "touches ?C ?D w w'" by (rule f(2))
    moreover have "http_errors_raised E r [Http_get ?u]" using f(4) raised(2) by simp
    ultimately show ?thesis using raised(2) by (intro exI [of _ "[Http_get ?u]"]) simp
  next
    case (ok w1)
    note f = fetch_patch_instructions_run [OF ok(1)]
    from ok(2) have "download_patch_instructions E cs destination sd w1 = (r, w')"
      by (simp add: download_patch_instructions_def)
    from Cons.IH [OF this] obtain evs where
      l: "log w' = log w1 @ evs" and dt: "download_targets evs = []" and
      it: "index_targets evs = []" and t: "touches ?C ?D w1 w'" and
      h: "http_errors_raised E r evs" and
      g: "r = None \<longrightarrow> (\<forall>c \<in> set cs. instructions_url E c sd \<in> set (http_gets evs)) \<and>
        (cs \<noteq> [] \<longrightarrow> lookup w' (instructions_path destination sd)
            = Some (File (snd (requests_get E (instructions_url E (last cs) sd)))))"
      by blast
    have l': "log w' = log w @ (Http_get ?u # evs)" using l f(1) by simp
    have t': "touches ?C ?D w w'" using f(2) t by (rule touches_trans)
    have h': "http_errors_raised E r (Http_get ?u # evs)"
      using http_errors_raised_append [OF f(4) h] by simp
    have last_one: "lookup w' (instructions_path destination sd)
            = Some (File (snd (requests_get E (instructions_url E (last (c # cs)) sd))))"
      if "r = None"
    proof (cases "cs = []")
      case True
      with ok(2) have "w' = w1" by simp
      with f(3) True show ?thesis by simp
    next
      case False
      with g that show ?thesis by simp
    qed
    have g': "r = None \<longrightarrow>
        (\<forall>c' \<in> set (c # cs). instructions_url E c' sd \<in> set (http_gets (Http_get ?u # evs))) \<and>
        (c # cs \<noteq> [] \<longrightarrow> lookup w' (instructions_path destination sd)
            = Some (File (snd (requests_get E (instructions_url E (last (c # cs)) sd)))))"
      using g last_one by auto
    from l' dt it t' h' g' show ?thesis
      by (intro exI [of _ "Http_get ?u # evs"]) simp
  qed
qed

lemma patch_instructions_loop_run:
  "for_each (download_patch_instructions E chans destination) sds w = (r, w') \<Longrightarrow>
   \<exists>evs. log w' = log w @ evs \<and> download_targets evs = [] \<and> index_targets evs = [] \<and>
     touches (instructions_path destination ` set sds) {q. \<exists>sd. prefix q (destination @ [sd])} w w' \<and>
     http_errors_raised E r evs \<and>
     (r = None \<longrightarrow>
        (\<forall>sd \<in> set sds. \<forall>c \<in> set chans.
            instructions_url E c sd \<in> set (http_gets evs) \<and>
            lookup w' (instructions_path destination sd)
              = Some (File (snd (requests_get E (instructions_url E (last chans) sd))))))"
proof (induction sds arbitrary: w)
  case Nil
  then have "r = None" and "w' = w" by simp_all
  then show ?case by (simp add: touches_refl http_errors_raised_Nil)
next
  case (Cons sd sds)
  let ?f = "download_patch_instructions E chans destination"
  let ?C = "instructions_path destination ` set (sd # sds)"
  let ?D = "{q. \<exists>sd. prefix q (destination @ [sd])}"
  let ?body = "\<lambda>sd. Some (File (snd (requests_get E (instructions_url E (last chans) sd))))"
  from Cons.prems have run: "then_do (?f sd w) (for_each ?f sds) = (r, w')" by simp
  from run show ?case
  proof (cases rule: then_doE)
    case (raised e)
    from download_patch_instructions_run [OF raised(1)] obtain evs where
      l: "log w' = log w @ evs" and dt: "download_targets evs = []" and
      it: "index_targets evs = []" and
      t: "touches {instructions_path destination sd} {q. prefix q (destination @ [sd])} w w'" and
      h: "http_errors_raised E (Some e) evs"
      by blast
    have "touches ?C ?D w w'" using t by (rule touches_weaken) auto
    with l dt it h raised(2) show ?thesis by (intro exI [of _ evs]) simp
  next
    case (ok w1)
    from download_patch_instructions_run [OF ok(1)] obtain evs1 where
      l1: "log w1 = log w @ evs1" and dt1: "download_targets evs1 = []" and
      it1: "index_targets evs1 = []" and
      t1: "touches {instructions_path destination sd} {q. prefix q (destination @ [sd])} w w1" and
      h1: "http_errors_raised E None evs1" and
      g1: "\<forall>c \<in> set chans. instructions_url E c sd \<in> set (http_gets evs1)" and
      b1: "chans \<noteq> [] \<longrightarrow> lookup w1 (instructions_path destination sd) = ?body sd"
      by blast
    from Cons.IH [OF ok(2)] obtain evs2 where
      l2: "log w' = log w1 @ evs2" and dt2: "download_targets evs2 = []" and
      it2: "index_targets evs2 = []" and
      t2: "touches (instructions_path destination ` set sds) ?D w1 w'" and
      h2: "http_errors_raised E r evs2" and
      g2: "r = None \<longrightarrow> (\<forall>sd \<in> set sds. \<forall>c \<in> set chans.
            instructions_url E c sd \<in> set (http_gets evs2) \<and>
            lookup w' (instructions_path destination sd) = ?body sd)"
      by blast
    have l: "log w' = log w @ (evs1 @ evs2)" using l1 l2 by simp
    have t1': "touches ?C ?D w w1" using t1 by (rule touches_weaken) auto
    have t2': "touches ?C ?D w1 w'" using t2 by (rule touches_weaken) auto
    have t: "touches ?C ?D w w'" using t1' t2' by (rule touches_trans)
    have h: "http_errors_raised E r (evs1 @ evs2)" using h1 h2 by (rule http_errors_raised_append)
    have head: "lookup w' (instructions_path destination sd) = ?body sd"
      if "r = None" and "c \<in> set chans" for c
    proof (cases "sd \<in> set sds")
      case True
      with g2 that show ?thesis by blast
    next
      case False
      then have "instructions_path destination sd \<notin> instructions_path destination ` set sds"
        by auto
      moreover from b1 that have "lookup w1 (instructions_path destination sd) = ?body sd" by auto
      ultimately show ?thesis using t2 by (metis touches_keeps)
    qed
    have g: "r = None \<longrightarrow> (\<forall>sd' \<in> set (sd # sds). \<forall>c \<in> set chans.
            instructions_url E c sd' \<in> set (http_gets (evs1 @ evs2)) \<and>
            lookup w' (instructions_path destination sd') = ?body sd')"
      using g1 g2 head by auto
    from l dt1 dt2 it1 it2 t h g show ?thesis
      by (intro exI [of _ "evs1 @ evs2"]) simp
  qed
qed

lemma conda_download_run:
  assumes "conda_download E u p h z w = (r, w')"
  shows "log w' = log w @ [Conda_download u p h z]" and "touches {p} {} w w'"
proof -
  show "log w' = log w @ [Conda_download u p h z]"
    using log_conda_download [of E u p h z w] assms by simp
  show "touches {p} {} w w'"
  proof (cases "conda_fetch E u h z")
    case (Inl e)
    with assms have "w' = emit (Conda_download u p h z) w" by (simp add: conda_download_def)
    then show ?thesis by (simp add: touches_emit)
  next
    case (Inr content)
    with assms have "write_bytes p content (emit (Conda_download u p h z) w) = (r, w')"
      by (simp add: conda_download_def)
    from write_bytes_run(2) [OF this] touches_emit [of "{p}" "{}" w] show ?thesis
      by (blast intro: touches_trans)
  qed
qed

lemma fetch_package_run:
  assumes "then_do (mkdir_parents q w) (conda_download E u p h z) = (r, w')"
  shows "\<exists>evs. log w' = log w @ evs \<and> http_gets evs = [] \<and> index_targets evs = [] \<and>
           (download_targets evs = [] \<or> download_targets evs = [p]) \<and>
           touches (set (download_targets evs)) {x. prefix x q} w w'"
  using assms
proof (cases rule: then_doE)
  case (raised e)
  from mkdir_parents_run(1,2) [OF raised(1)] show ?thesis
    by (intro exI [of _ "[]"]) simp
next
  case (ok w1)
  have "touches {p} {x. prefix x q} w w1"
    using mkdir_parents_run(2) [OF ok(1)] by (rule touches_weaken) auto
  moreover have "touches {p} {x. prefix x q} w1 w'"
    using conda_download_run(2) [OF ok(2)] by (rule touches_weaken) auto
  ultimately have "touches {p} {x. prefix x q} w w'" by (rule touches_trans)
  with mkdir_parents_run(1) [OF ok(1)] conda_download_run(1) [OF ok(2)] show ?thesis
    by (intro exI [of _ "[Conda_download u p h z]"]) simp
qed

lemma download_package_run:
  assumes "download_package E record destination verify w = (r, w')"
  shows "\<exists>evs. log w' = log w @ evs \<and> http_gets evs = [] \<and> index_targets evs = [] \<and>
           (download_targets evs = [] \<or>
            download_targets evs = [destination @ [subdir record, fn record]]) \<and>
           touches (set (download_targets evs)) {q. prefix q (destination @ [subdir record])} w w'"
proof -
  let ?p = "destination @ [subdir record, fn record]"
  let ?q = "destination @ [subdir record]"
  let ?h = "if verify then Some (sha256 record) else None"
  let ?z = "if verify then Some (size_bytes record) else None"
  let ?fetch = "\<lambda>w. then_do (mkdir_parents ?q w) (conda_download E (url record) ?p ?h ?z)"
  have bl: "butlast ?p = ?q" by (simp add: butlast_append)
  have same: ?thesis if "w' = w"
    using that by (intro exI [of _ "[]"]) (simp add: touches_refl)
  consider (skip) "w' = w"
    | (fetch) "?fetch w = (r, w')"
    | (refetch) "?fetch (emit (Log_info ?p) w) = (r, w')"
    using assms bl
    by (auto simp: download_package_def Let_def split: if_splits sum.splits)
  then show ?thesis
  proof cases
    case skip
    then show ?thesis by (rule same)
  next
    case fetch
    then show ?thesis by (rule fetch_package_run)
  next
    case refetch
    from fetch_package_run [OF refetch] obtain evs where
      l: "log w' = log (emit (Log_info ?p) w) @ evs" and hg: "http_gets evs = []" and
      it: "index_targets evs = []" and
      dt: "download_targets evs = [] \<or> download_targets evs = [?p]" and
      t: "touches (set (download_targets evs)) {x. prefix x ?q} (emit (Log_info ?p) w) w'"
      by blast
    have "touches (set (download_targets evs)) {x. prefix x ?q} w w'"
      using touches_emit t by (rule touches_trans)
    with l hg it dt show ?thesis
      by (intro exI [of _ "Log_info ?p # evs"]) (simp add: log_emit)
  qed
qed

lemma sorted_targets:
  assumes "sorted (map fn (x # xs))"
    and "\<forall>t \<in> set ts. \<exists>record \<in> set xs. t = destination @ [subdir record, fn record]"
    and "sorted (map last ts)"
    and "t0 = [] \<or> t0 = [destination @ [subdir x, fn x]]"
  shows "sorted (map last (t0 @ ts))"
proof -
  have "fn x \<le> last t" if "t \<in> set ts" for t
  proof -
    from assms(2) that obtain y where "y \<in> set xs" and "t = destination @ [subdir y, fn y]"
      by blast
    with assms(1) show ?thesis by simp
  qed
  with assms(3,4) show ?thesis by (auto simp: sorted_append)
qed

lemma download_loop_run:
  "for_each (\<lambda>record. download_package E record destination verify) rs w = (r, w') \<Longrightarrow>
   \<exists>evs. log w' = log w @ evs \<and> http_gets evs = [] \<and> index_targets evs = [] \<and>
     touches (set (download_targets evs)) {q. \<exists>sd. prefix q (destination @ [sd])} w w' \<and>
     (\<forall>t \<in> set (download_targets evs). \<exists>record \<in> set rs. t = destination @ [subdir record, fn record]) \<and>
     (sorted (map fn rs) \<longrightarrow> sorted (map last (download_targets evs)))"
proof (induction rs arbitrary: w)
  case Nil
  then have "r = None" and "w' = w" by simp_all
  then show ?case by (intro exI [of _ "[]"]) (simp add: touches_refl)
next
  case (Cons x xs)
  let ?f = "\<lambda>record. download_package E record destination verify"
  let ?D = "{q. \<exists>sd. prefix q (destination @ [sd])}"
  from Cons.prems have run: "then_do (?f x w) (for_each ?f xs) = (r, w')" by simp
  from run show ?case
  proof (cases rule: then_doE)
    case (raised e)
    from download_package_run [OF raised(1)] obtain evs where
      l: "log w' = log w @ evs" and hg: "http_gets evs = []" and it: "index_targets evs = []" and
      dt: "download_targets evs = [] \<or> download_targets evs = [destination @ [subdir x, fn x]]" and
      t: "touches (set (download_targets evs)) {q. prefix q (destination @ [subdir x])} w w'"
      by blast
    have "touches (set (download_targets evs)) ?D w w'"
      using t by (rule touches_weaken) auto
    with l hg it dt show ?thesis by (intro exI [of _ evs]) auto
  next
    case (ok w1)
    from download_package_run [OF ok(1)] obtain evs1 where
      l1: "log w1 = log w @ evs1" and hg1: "http_gets evs1 = []" and it1: "index_targets evs1 = []" and
      dt1: "download_targets evs1 = [] \<or> download_targets evs1 = [destination @ [subdir x, fn x]]" and
      t1: "touches (set (download_targets evs1)) {q. prefix q (destination @ [subdir x])} w w1"
      by blast
    from Cons.IH [OF ok(2)] obtain evs2 where
      l2: "log w' = log w1 @ evs2" and hg2: "http_gets evs2 = []" and it2: "index_targets evs2 = []" and
      t2: "touches (set (download_targets evs2)) ?D w1 w'" and
      m2: "\<forall>t \<in> set (download_targets evs2). \<exists>record \<in> set xs. t = destination @ [subdir record, fn record]" and
      s2: "sorted (map fn xs) \<longrightarrow> sorted (map last (download_targets evs2))"
      by blast
    let ?dts = "set (download_targets (evs1 @ evs2))"
    have "touches ?dts ?D w w1" using t1 by (rule touches_weaken) auto
    moreover have "touches ?dts ?D w1 w'" using t2 by (rule touches_weaken) auto
    ultimately have t: "touches ?dts ?D w w'" by (rule touches_trans)
    have m: "\<forall>t \<in> ?dts. \<exists>record \<in> set (x # xs). t = destination @ [subdir record, fn record]"
      using dt1 m2 by auto
    have s: "sorted (map last (download_targets (evs1 @ evs2)))" if srt: "sorted (map fn (x # xs))"
    proof -
      from srt have "sorted (map fn xs)" by simp
      with s2 have "sorted (map last (download_targets evs2))" by simp
      with srt m2 dt1 have "sorted (map last (download_targets evs1 @ download_targets evs2))"
        by (intro sorted_targets [of x xs _ destination])
      then show ?thesis by simp
    qed
    from l1 l2 hg1 hg2 it1 it2 t m s show ?thesis
      by (intro exI [of _ "evs1 @ evs2"]) simp
  qed
qed

lemma update_index_run:
  assumes "update_index E target sds w = (r, w')"
  shows "files w' = files w"
    and "\<exists>evs. log w' = log w @ evs \<and> http_gets evs = [] \<and> download_targets evs = [] \<and>
           index_targets evs = (if r = None then [target] else [])"
proof -
  from assms have "(r \<noteq> None \<and> w' = w) \<or> (\<exists>g. r = None \<and> w' = emit (Index_build target g) w)"
    by (auto simp: update_index_def Let_def split: if_splits sum.splits)
  then show "files w' = files w"
    and "\<exists>evs. log w' = log w @ evs \<and> http_gets evs = [] \<and> download_targets evs = [] \<and>
           index_targets evs = (if r = None then [target] else [])"
    by (auto simp: emit_def)
qed

lemma call_update_index_progress:
  "call_update_index E target [''progress'', ''subdirs''] sds w = (Some TypeError, w)"
  by (simp add: call_update_index_def update_index_parameters_def)

lemma call_update_index_accepted:
  "call_update_index E target [''subdirs'', ''silent''] sds w = update_index E target sds w"
  by (simp add: call_update_index_def update_index_parameters_def)

lemma then_do_assoc: "then_do (then_do r f) g = then_do r (\<lambda>w. then_do (f w) g)"
  by (cases r) (simp add: then_do_def split: option.splits)

lemma then_do_raise: "then_do (Some e, w) g = (Some e, w)"
  by (simp add: then_do_def)

subsection \<open>A run of sync\<close>

lemma below_destination:
  "instructions_path destination ` set sds \<subseteq> {p. strict_prefix destination p}"
  "{q. \<exists>sd. prefix q (destination @ [sd])}
     \<subseteq> {p. strict_prefix destination p} \<union> ({q. prefix q destination} \<union> S)"
  by (auto simp: instructions_path_def strict_prefix_def)

lemma target_below_destination: "strict_prefix destination (destination @ [a, b])"
  by (simp add: strict_prefix_def)

text \<open>The part of \<open>sync\<close> after the difference is known: patch instructions, packages, index.\<close>

lemma sync_phases_run:
  assumes run: "then_do (for_each (download_patch_instructions E chans destination) sds w) (\<lambda>w.
             then_do (for_each (\<lambda>record. download_package E record destination verify) rs w) (\<lambda>w.
               if index \<and> patch = []
               then call_update_index E target [''progress'', ''subdirs''] (Some sds) w
               else (None, w)))
           = (r, w')"
    and srt: "sorted (map fn rs)"
  shows "\<exists>evs. log w' = log w @ evs \<and>
     touches {p. strict_prefix destination p} ({q. prefix q destination} \<union> S) w w' \<and>
     sorted (map last (download_targets evs)) \<and>
     (\<forall>t \<in> set (download_targets evs). \<exists>record \<in> set rs. t = destination @ [subdir record, fn record]) \<and>
     http_errors_raised E r evs \<and>
     index_targets evs = [] \<and>
     (index \<and> patch = [] \<longrightarrow> r \<noteq> None) \<and>
     (r = None \<longrightarrow>
        (\<forall>sd \<in> set sds. \<forall>c \<in> set chans.
            instructions_url E c sd \<in> set (http_gets evs) \<and>
            (lookup w' (instructions_path destination sd)
               = Some (File (snd (requests_get E (instructions_url E (last chans) sd)))) \<or>
             instructions_path destination sd \<in> set (download_targets evs))))"
proof -
  let ?C = "{p. strict_prefix destination p}"
  let ?D = "{q. prefix q destination} \<union> S"
  let ?body = "\<lambda>sd. Some (File (snd (requests_get E (instructions_url E (last chans) sd))))"
  from run show ?thesis
  proof (cases rule: then_doE)
    case (raised e)
    from patch_instructions_loop_run [OF raised(1)] obtain evs where
      l: "log w' = log w @ evs" and dt: "download_targets evs = []" and
      it: "index_targets evs = []" and
      t: "touches (instructions_path destination ` set sds) {q. \<exists>sd. prefix q (destination @ [sd])} w w'" and
      h: "http_errors_raised E (Some e) evs"
      by blast
    have "touches ?C ?D w w'"
      using t below_destination by (rule touches_weaken)
    with l dt it h raised(2) show ?thesis by (intro exI [of _ evs]) simp
  next
    case (ok w1)
    from patch_instructions_loop_run [OF ok(1)] obtain evs1 where
      l1: "log w1 = log w @ evs1" and dt1: "download_targets evs1 = []" and
      it1: "index_targets evs1 = []" and
      t1: "touches (instructions_path destination ` set sds) {q. \<exists>sd. prefix q (destination @ [sd])} w w1" and
      h1: "http_errors_raised E None evs1" and
      g1: "\<forall>sd \<in> set sds. \<forall>c \<in> set chans.
            instructions_url E c sd \<in> set (http_gets evs1) \<and>
            lookup w1 (instructions_path destination sd) = ?body sd"
      by blast
    have t1': "touches ?C ?D w w1"
      using t1 below_destination by (rule touches_weaken)
    from ok(2) show ?thesis
    proof (cases rule: then_doE)
      case (raised e)
      from download_loop_run [OF raised(1)] obtain evs2 where
        l2: "log w' = log w1 @ evs2" and hg2: "http_gets evs2 = []" and
        it2: "index_targets evs2 = []" and
        t2: "touches (set (download_targets evs2)) {q. \<exists>sd. prefix q (destination @ [sd])} w1 w'" and
        m2: "\<forall>t \<in> set (download_targets evs2). \<exists>record \<in> set rs. t = destination @ [subdir record, fn record]" and
        s2: "sorted (map fn rs) \<longrightarrow> sorted (map last (download_targets evs2))"
        by blast
      have u2: "\<forall>t \<in> set (download_targets evs2). strict_prefix destination t"
      proof
        fix t assume "t \<in> set (download_targets evs2)"
        with m2 obtain y :: package_record where "t = destination @ [subdir y, fn y]" by blast
        then show "strict_prefix destination t" by (simp add: target_below_destination)
      qed
      then have c2: "set (download_targets evs2) \<subseteq> ?C" by auto
      have "touches ?C ?D w1 w'"
        using t2 c2 below_destination(2) by (rule touches_weaken)
      with t1' have t: "touches ?C ?D w w'" by (rule touches_trans)
      have h: "http_errors_raised E r (evs1 @ evs2)"
        by (rule http_errors_raised_append [OF h1 http_errors_raised_no_gets [OF hg2]])
      from l1 l2 dt1 it1 it2 s2 srt m2 t h raised(2) show ?thesis
        by (intro exI [of _ "evs1 @ evs2"]) simp
    next
      case ok2: (ok w2)
      from download_loop_run [OF ok2(1)] obtain evs2 where
        l2: "log w2 = log w1 @ evs2" and hg2: "http_gets evs2 = []" and
        it2: "index_targets evs2 = []" and
        t2: "touches (set (download_targets evs2)) {q. \<exists>sd. prefix q (destination @ [sd])} w1 w2" and
        m2: "\<forall>t \<in> set (download_targets evs2). \<exists>record \<in> set rs. t = destination @ [subdir record, fn record]" and
        s2: "sorted (map fn rs) \<longrightarrow> sorted (map last (download_targets evs2))"
        by blast
      have u2: "\<forall>t \<in> set (download_targets evs2). strict_prefix destination t"
      proof
        fix t assume "t \<in> set (download_targets evs2)"
        with m2 obtain y :: package_record where "t = destination @ [subdir y, fn y]" by blast
        then show "strict_prefix destination t" by (simp add: target_below_destination)
      qed
      then have c2: "set (download_targets evs2) \<subseteq> ?C" by auto
      have "touches ?C ?D w1 w2"
        using t2 c2 below_destination(2) by (rule touches_weaken)
      with t1' have t12: "touches ?C ?D w w2" by (rule touches_trans)
      have keep: "lookup w2 (instructions_path destination sd) = ?body sd \<or>
                  instructions_path destination sd \<in> set (download_targets evs2)"
        if "sd \<in> set sds" and "c \<in> set chans" for sd c
      proof (cases "instructions_path destination sd \<in> set (download_targets evs2)")
        case True
        then show ?thesis by simp
      next
        case False
        from g1 that have "lookup w1 (instructions_path destination sd) = ?body sd" by blast
        from touches_keeps [OF t2 this False] show ?thesis by simp
      qed
      have fin: "w' = w2" and rfin: "r = (if index \<and> patch = [] then Some TypeError else None)"
        using ok2(2) by (simp_all add: call_update_index_progress split: if_splits)
      have t: "touches ?C ?D w w'" using t12 fin by simp
      have h: "http_errors_raised E r (evs1 @ evs2)"
        by (rule http_errors_raised_append [OF h1 http_errors_raised_no_gets [OF hg2]])
      have g: "\<forall>sd \<in> set sds. \<forall>c \<in> set chans.
            instructions_url E c sd \<in> set (http_gets (evs1 @ evs2)) \<and>
            (lookup w' (instructions_path destination sd) = ?body sd \<or>
             instructions_path destination sd \<in> set (download_targets (evs1 @ evs2)))"
        using g1 keep dt1 fin by simp
      have l: "log w' = log w @ (evs1 @ evs2)" using l1 l2 fin by simp
      from l dt1 it1 it2 s2 srt m2 t h g rfin show ?thesis
        by (intro exI [of _ "evs1 @ evs2"]) simp
    qed
  qed
qed

lemma sync_unfold:
  "sync E channels local specs subdirs index verify patch w =
     then_do (ensure_local_channel local w) (\<lambda>w.
     then_do (mkdir_parents (write_target local patch) w) (\<lambda>w.
       (case diff E local (Many (ensure_list channels)) specs (Some (Many (ensure_subdirs E subdirs))) of
          Inl e \<Rightarrow> (Some e, w)
        | Inr (added_records, removed) \<Rightarrow>
           then_do (for_each (download_patch_instructions E (ensure_list channels) (write_target local patch))
                      (ensure_subdirs E subdirs) w) (\<lambda>w.
           then_do (for_each (\<lambda>record. download_package E record (write_target local patch) verify)
                      (sort_key fn added_records) w) (\<lambda>w.
             if index \<and> patch = []
             then call_update_index E (Path local) [''progress'', ''subdirs'']
                    (Some (ensure_subdirs E subdirs)) w
             else (None, w))))))"
  by (simp only: sync_def Let_def write_target_def)

lemma sync_run:
  assumes run: "sync E channels local specs subdirs index verify patch w = (r, w')"
  shows "\<exists>evs. log w' = log w @ evs \<and>
     touches {p. strict_prefix (write_target local patch) p}
       ({q. prefix q (write_target local patch)} \<union>
        {q. prefix q (Path local @ [''noarch'', ''repodata.json''])}) w w' \<and>
     sorted (map last (download_targets evs)) \<and>
     (\<forall>t \<in> set (download_targets evs). \<exists>added removed.
         diff E local (Many (ensure_list channels)) specs (Some (Many (ensure_subdirs E subdirs)))
           = Inr (added, removed) \<and>
         (\<exists>record \<in> set added. t = write_target local patch @ [subdir record, fn record])) \<and>
     http_errors_raised E r evs \<and>
     index_targets evs = [] \<and>
     (index \<and> patch = [] \<longrightarrow> r \<noteq> None) \<and>
     (r = None \<longrightarrow>
        lookup w' (write_target local patch) = Some Dir \<and>
        (\<forall>sd \<in> set (ensure_subdirs E subdirs). \<forall>c \<in> set (ensure_list channels).
            instructions_url E c sd \<in> set (http_gets evs) \<and>
            (lookup w' (instructions_path (write_target local patch) sd)
               = Some (File (snd (requests_get E (instructions_url E (last (ensure_list channels)) sd)))) \<or>
             instructions_path (write_target local patch) sd \<in> set (download_targets evs))))"
proof -
  let ?dest = "write_target local patch"
  let ?S = "{q. prefix q (Path local @ [''noarch'', ''repodata.json''])}"
  let ?C = "{p. strict_prefix ?dest p}"
  let ?D = "{q. prefix q ?dest} \<union> ?S"
  have early: ?thesis if "log w' = log w" and "touches ?C ?D w w'" and "r \<noteq> None"
    using that by (intro exI [of _ "[]"]) (auto simp: http_errors_raised_Nil)
  from run [unfolded sync_unfold] show ?thesis
  proof (cases rule: then_doE)
    case (raised e)
    have "touches ?C ?D w w'"
      using ensure_local_channel_run(2) [OF raised(1)] by (rule touches_weaken) auto
    with ensure_local_channel_run(1) [OF raised(1)] raised(2) show ?thesis
      by (intro early) simp_all
  next
    case (ok w1)
    have l1: "log w1 = log w" by (rule ensure_local_channel_run(1) [OF ok(1)])
    have t1: "touches ?C ?D w w1"
      using ensure_local_channel_run(2) [OF ok(1)] by (rule touches_weaken) auto
    from ok(2) show ?thesis
    proof (cases rule: then_doE)
      case (raised e)
      have "touches ?C ?D w1 w'"
        using mkdir_parents_run(2) [OF raised(1)] by (rule touches_weaken) auto
      with t1 have "touches ?C ?D w w'" by (rule touches_trans)
      with mkdir_parents_run(1) [OF raised(1)] l1 raised(2) show ?thesis
        by (intro early) simp_all
    next
      case ok2: (ok w2)
      have l2: "log w2 = log w" using mkdir_parents_run(1) [OF ok2(1)] l1 by simp
      have "touches ?C ?D w1 w2"
        using mkdir_parents_run(2) [OF ok2(1)] by (rule touches_weaken) auto
      with t1 have t2: "touches ?C ?D w w2" by (rule touches_trans)
      have d2: "lookup w2 ?dest = Some Dir" using mkdir_parents_run(3) [OF ok2(1)] by simp
      show ?thesis
      proof (cases "diff E local (Many (ensure_list channels)) specs (Some (Many (ensure_subdirs E subdirs)))")
        case (Inl e)
        with ok2(2) have "r = Some e" and "w' = w2" by simp_all
        with l2 t2 show ?thesis by (intro early) simp_all
      next
        case (Inr pair)
        obtain added_records removed where pair: "pair = (added_records, removed)" by (cases pair)
        from ok2(2) Inr pair have phases:
          "then_do (for_each (download_patch_instructions E (ensure_list channels) ?dest)
                      (ensure_subdirs E subdirs) w2) (\<lambda>w.
           then_do (for_each (\<lambda>record. download_package E record ?dest verify)
                      (sort_key fn added_records) w) (\<lambda>w.
             if index \<and> patch = []
             then call_update_index E (Path local) [''progress'', ''subdirs'']
                    (Some (ensure_subdirs E subdirs)) w
             else (None, w))) = (r, w')"
          by simp
        have srt: "sorted (map fn (sort_key fn added_records))" by (rule sorted_sort_key)
        from sync_phases_run [OF phases srt, of ?S] obtain evs where
          l: "log w' = log w2 @ evs" and t: "touches ?C ?D w2 w'" and
          rest: "sorted (map last (download_targets evs)) \<and>
     (\<forall>t \<in> set (download_targets evs).
         \<exists>record \<in> set (sort_key fn added_records). t = ?dest @ [subdir record, fn record]) \<and>
     http_errors_raised E r evs \<and>
     index_targets evs = [] \<and>
     (index \<and> patch = [] \<longrightarrow> r \<noteq> None) \<and>
     (r = None \<longrightarrow>
        (\<forall>sd \<in> set (ensure_subdirs E subdirs). \<forall>c \<in> set (ensure_list channels).
            instructions_url E c sd \<in> set (http_gets evs) \<and>
            (lookup w' (instructions_path ?dest sd)
               = Some (File (snd (requests_get E (instructions_url E (last (ensure_list channels)) sd)))) \<or>
             instructions_path ?dest sd \<in> set (download_targets evs))))"
          by blast
        have l': "log w' = log w @ evs" using l l2 by simp
        have t': "touches ?C ?D w w'" using t2 t by (rule touches_trans)
        have "?dest \<notin> ?C" by simp
        with t d2 have d: "lookup w' ?dest = Some Dir" by (rule touches_keeps)
        have m: "\<forall>t \<in> set (download_targets evs). \<exists>added removed.
           diff E local (Many (ensure_list channels)) specs (Some (Many (ensure_subdirs E subdirs)))
             = Inr (added, removed) \<and>
           (\<exists>record \<in> set added. t = ?dest @ [subdir record, fn record])"
        proof
          fix t assume "t \<in> set (download_targets evs)"
          with rest obtain y where "y \<in> set (sort_key fn added_records)"
            and "t = ?dest @ [subdir y, fn y]" by blast
          with Inr pair show "\<exists>added removed.
           diff E local (Many (ensure_list channels)) specs (Some (Many (ensure_subdirs E subdirs)))
             = Inr (added, removed) \<and>
           (\<exists>record \<in> set added. t = ?dest @ [subdir record, fn record])"
            by (intro exI [of _ added_records] exI [of _ removed]) auto
        qed
        from l' t' d rest m show ?thesis by (intro exI [of _ evs]) simp
      qed
    qed
  qed
qed

lemma sync_fresh_patch:
  "sync fresh_env (One ''up'') ''m'' (One ''a'') None True True ''p'' empty_world
     = (None, fresh_patch_world)"
  by (simp add: model_defs demo_defs fresh_env_def fresh_patch_world_def)

lemma sync_not_found:
  "sync not_found_env (One ''up'') ''m'' (One ''a'') None True True ''p'' empty_world
     = (Some (HTTPError 404), not_found_world)"
  by (simp add: model_defs demo_defs fresh_env_def not_found_env_def not_found_world_def)

lemma sync_two_subdirs:
  "sync fresh_env (One ''up'') ''m'' (One ''a'') (Some (Many [''linux'', ''noarch''])) True True []
     empty_world = (Some TypeError, two_subdirs_world)"
  by (simp add: model_defs demo_defs fresh_env_def two_subdirs_world_def)

lemma sync_two_subdirs_no_index:
  "sync fresh_env (One ''up'') ''m'' (One ''a'') (Some (Many [''linux'', ''noarch''])) False True []
     empty_world = (None, two_subdirs_world)"
  by (simp add: model_defs demo_defs fresh_env_def two_subdirs_world_def)

text \<open>
  With a patch directory, \<open>sync\<close> writes below it: a path keeps its node unless it lies
  below the patch directory, or nothing was there and it is the patch directory, a
  directory on the way to it, or part of the stub \<open>local/noarch/repodata.json\<close>; every
  download goes below the patch directory, and the index builder is not called.
\<close>

lemma sync_patch_frame:
  assumes "sync E channels local specs subdirs index verify patch w = (r, w')"
    and "patch \<noteq> []"
  shows "\<exists>evs. log w' = log w @ evs \<and>
        touches {p. strict_prefix (Path patch) p}
          ({q. prefix q (Path patch)} \<union> {q. prefix q (Path local @ [''noarch'', ''repodata.json''])})
          w w' \<and>
        (\<forall>t \<in> set (download_targets evs). strict_prefix (Path patch) t) \<and>
        index_targets evs = [] \<and>
        (r = None \<longrightarrow> lookup w' (Path patch) = Some Dir)"
proof -
  from sync_run [OF assms(1)] obtain evs where
    l: "log w' = log w @ evs" and
    t: "touches {p. strict_prefix (write_target local patch) p}
          ({q. prefix q (write_target local patch)} \<union>
           {q. prefix q (Path local @ [''noarch'', ''repodata.json''])}) w w'" and
    m: "\<forall>t \<in> set (download_targets evs). \<exists>added removed.
         diff E local (Many (ensure_list channels)) specs (Some (Many (ensure_subdirs E subdirs)))
           = Inr (added, removed) \<and>
         (\<exists>y \<in> set added. t = write_target local patch @ [subdir y, fn y])" and
    i: "index_targets evs = []" and
    n: "r = None \<longrightarrow> lookup w' (write_target local patch) = Some Dir"
    by blast
  have u: "\<forall>t \<in> set (download_targets evs). strict_prefix (write_target local patch) t"
  proof
    fix t assume "t \<in> set (download_targets evs)"
    with m obtain y :: package_record where "t = write_target local patch @ [subdir y, fn y]"
      by blast
    then show "strict_prefix (write_target local patch) t"
      by (simp add: target_below_destination)
  qed
  from l t u i n assms(2) show ?thesis
    by (intro exI [of _ evs]) (simp add: write_target_def)
qed

text \<open>
  Claim C4. With a patch directory the claim holds of the code (\<open>sync_patch_frame\<close>).
  Its converse, that the index of the mirror is rebuilt when \<open>index\<close> is set and no
  patch directory is given, does not: \<open>sync\<close> then calls \<open>update_index\<close> with the
  keyword \<open>progress\<close>, which \<open>update_index\<close> does not have, so the call raises
  \<open>TypeError\<close> and the index builder is never reached. In the example the fresh mirror is
  synced in place with \<open>index\<close> set: both packages are downloaded, the run ends in
  \<open>TypeError\<close> with no call of the index builder, and \<open>update_index\<close> itself, called on
  the world reached with the keywords it has, builds the index.
\<close>

theorem sync_index_raises_type_error:
  "sync fresh_env (One ''up'') ''m'' (One ''a'') None True True [] empty_world
     = (Some TypeError, fresh_mirror_world) \<and>
   download_targets (log fresh_mirror_world)
     = [[''m'', ''noarch'', ''a.tar''], [''m'', ''noarch'', ''b.tar'']] \<and>
   index_targets (log fresh_mirror_world) = [] \<and>
   call_update_index fresh_env [''m''] [''subdirs'', ''silent''] (Some [''noarch'']) fresh_mirror_world
     = (None, emit (Index_build [''m''] (Some [([''noarch'', ''patch_instructions.json''], File ''{ }'')]))
               fresh_mirror_world)"
  by (simp add: model_defs demo_defs fresh_env_def fresh_mirror_world_def)

lemma sync_index_split:
  "sync E channels local specs subdirs index verify patch w =
     then_do (sync E channels local specs subdirs False verify patch w) (\<lambda>w.
       if index \<and> patch = []
       then call_update_index E (Path local) [''progress'', ''subdirs'']
              (Some (ensure_subdirs E subdirs)) w
       else (None, w))"
proof (cases "diff E local (Many (ensure_list channels)) specs (Some (Many (ensure_subdirs E subdirs)))")
  case (Inl e)
  then show ?thesis
    unfolding sync_unfold by (simp add: then_do_assoc then_do_raise)
next
  case (Inr pair)
  obtain added_records removed where pair: "pair = (added_records, removed)" by (cases pair)
  have unit: "then_do (None, w) g = g w" for w g
    by (simp add: then_do_def)
  show ?thesis
    unfolding sync_unfold by (simp add: Inr pair then_do_assoc unit)
qed

text \<open>
  Claim C6. Take a run of \<open>sync\<close> in which the steps before the index update raise
  nothing, that is, in which the same call with \<open>index\<close> unset returns. Then for every
  subdir of the requested list (the given list, the one given string, or the platform
  defaults when none is given) and every channel, the patch-instructions document has
  been requested at \<open>base-url/patch_instructions.json\<close>, and the file
  \<open>target/subdir/patch_instructions.json\<close> holds the body received (that of the last
  channel of the list), unless a package download was directed at this very path
  afterwards; no condition on the added records is involved. In every run, a request
  answered with a status from 400 to 599 ends the run, and that HTTP error is the
  result of \<open>sync\<close>.
\<close>

theorem sync_fetches_patch_instructions:
  assumes "sync E channels local specs subdirs index verify patch w = (r, w')"
  shows "\<exists>evs. log w' = log w @ evs \<and>
     (\<forall>u \<in> set (http_gets evs). 400 \<le> fst (requests_get E u) \<and> fst (requests_get E u) < 600
         \<longrightarrow> r = Some (HTTPError (fst (requests_get E u)))) \<and>
     (fst (sync E channels local specs subdirs False verify patch w) = None \<longrightarrow>
        (\<forall>sd \<in> set (case subdirs of None \<Rightarrow> context_subdirs E
                                   | Some (One s) \<Rightarrow> [s] | Some (Many sds) \<Rightarrow> sds).
         \<forall>c \<in> set (case channels of One s \<Rightarrow> [s] | Many cs \<Rightarrow> cs).
            all_channel_urls E c sd @ ''/patch_instructions.json'' \<in> set (http_gets evs) \<and>
            (lookup w' ((if patch = [] then Path local else Path patch) @ [sd, ''patch_instructions.json''])
               = Some (File (snd (requests_get E
                    (all_channel_urls E (last (case channels of One s \<Rightarrow> [s] | Many cs \<Rightarrow> cs)) sd
                       @ ''/patch_instructions.json'')))) \<or>
             (if patch = [] then Path local else Path patch) @ [sd, ''patch_instructions.json'']
               \<in> set (download_targets evs))))"
proof -
  let ?sds = "case subdirs of None \<Rightarrow> context_subdirs E | Some (One s) \<Rightarrow> [s] | Some (Many sds) \<Rightarrow> sds"
  let ?chans = "case channels of One s \<Rightarrow> [s] | Many cs \<Rightarrow> cs"
  let ?P = "\<lambda>w' evs. \<forall>sd \<in> set ?sds. \<forall>c \<in> set ?chans.
            all_channel_urls E c sd @ ''/patch_instructions.json'' \<in> set (http_gets evs) \<and>
            (lookup w' ((if patch = [] then Path local else Path patch) @ [sd, ''patch_instructions.json''])
               = Some (File (snd (requests_get E
                    (all_channel_urls E (last ?chans) sd @ ''/patch_instructions.json'')))) \<or>
             (if patch = [] then Path local else Path patch) @ [sd, ''patch_instructions.json'']
               \<in> set (download_targets evs))"
  have sds: "ensure_subdirs E subdirs = ?sds"
    by (simp add: ensure_subdirs_def get_current_subdirs_def ensure_list_def
          split: option.splits one_or_more.splits)
  have chans: "ensure_list channels = ?chans"
    by (simp add: ensure_list_def split: one_or_more.splits)
  have url: "instructions_url E c sd = all_channel_urls E c sd @ ''/patch_instructions.json''" for c sd
    by (simp add: instructions_url_def PATCH_INSTRUCTIONS_def)
  have pth: "instructions_path (write_target local patch) sd
               = (if patch = [] then Path local else Path patch) @ [sd, ''patch_instructions.json'']" for sd
    by (simp add: instructions_path_def write_target_def PATCH_INSTRUCTIONS_def)
  have raised: "\<forall>u \<in> set (http_gets evs). 400 \<le> fst (requests_get E u) \<and> fst (requests_get E u) < 600
         \<longrightarrow> r = Some (HTTPError (fst (requests_get E u)))"
    if "http_errors_raised E r evs" for r evs
    using that by (simp add: http_errors_raised_def non_success_def)
  from sync_run [OF assms] obtain evs where
    l: "log w' = log w @ evs" and h: "http_errors_raised E r evs"
    by blast
  show ?thesis
  proof (cases "fst (sync E channels local specs subdirs False verify patch w) = None")
    case False
    then have vac: "fst (sync E channels local specs subdirs False verify patch w) = None
                      \<longrightarrow> ?P w' evs"
      by (intro impI) (erule (1) notE)
    show ?thesis by (intro exI [of _ evs] conjI l raised [OF h] vac)
  next
    case True
    then obtain w0 where run0: "sync E channels local specs subdirs False verify patch w = (None, w0)"
      by (cases "sync E channels local specs subdirs False verify patch w") auto
    have fin: "(if index \<and> patch = []
                then call_update_index E (Path local) [''progress'', ''subdirs'']
                       (Some (ensure_subdirs E subdirs)) w0
                else (None, w0)) = (r, w')"
      using assms sync_index_split [of E channels local specs subdirs index verify patch w] run0
      by (simp add: then_do_def)
    then have w': "w' = w0"
      by (simp add: call_update_index_progress split: if_splits)
    from sync_run [OF run0] obtain evs0 where
      l0: "log w0 = log w @ evs0" and
      p0: "\<forall>sd \<in> set (ensure_subdirs E subdirs). \<forall>c \<in> set (ensure_list channels).
            instructions_url E c sd \<in> set (http_gets evs0) \<and>
            (lookup w0 (instructions_path (write_target local patch) sd)
               = Some (File (snd (requests_get E (instructions_url E (last (ensure_list channels)) sd)))) \<or>
             instructions_path (write_target local patch) sd \<in> set (download_targets evs0))"
      by blast
    from l l0 w' have e: "evs0 = evs" by simp
    from p0 have "?P w' evs" unfolding sds chans url pth e w' by (rule asm_rl)
    then have p: "fst (sync E channels local specs subdirs False verify patch w) = None
                    \<longrightarrow> ?P w' evs"
      by (rule impI)
    show ?thesis by (intro exI [of _ evs] conjI l raised [OF h] p)
  qed
qed

text \<open>
  The witness: the fresh mirror is synced in place for the subdirs \<open>linux\<close> and
  \<open>noarch\<close>, and both added packages belong to \<open>noarch\<close>. The steps before the index
  update raise nothing, the document of \<open>linux\<close> is requested and written all the same,
  and the run ends in the \<open>TypeError\<close> of the index update. Against an upstream that
  answers with status 404, the run ends in that HTTP error.
\<close>

theorem sync_fetches_patch_instructions_witness:
  "sync fresh_env (One ''up'') ''m'' (One ''a'') (Some (Many [''linux'', ''noarch''])) True True []
     empty_world = (Some TypeError, two_subdirs_world) \<and>
   fst (sync fresh_env (One ''up'') ''m'' (One ''a'') (Some (Many [''linux'', ''noarch''])) False True []
     empty_world) = None \<and>
   finder_search fresh_env [''up''] [''linux'', ''noarch''] [''a''] = Inr [rec_b, rec_a] \<and>
   subdir rec_a = ''noarch'' \<and> subdir rec_b = ''noarch'' \<and>
   ''up/linux/patch_instructions.json'' \<in> set (http_gets (log two_subdirs_world)) \<and>
   lookup two_subdirs_world [''m'', ''linux'', ''patch_instructions.json''] = Some (File ''{ }'') \<and>
   ''up/noarch/patch_instructions.json'' \<in> set (http_gets (log two_subdirs_world)) \<and>
   lookup two_subdirs_world [''m'', ''noarch'', ''patch_instructions.json''] = Some (File ''{ }'') \<and>
   sync not_found_env (One ''up'') ''m'' (One ''a'') None True True ''p'' empty_world
     = (Some (HTTPError 404), not_found_world) \<and>
   ''up/noarch/patch_instructions.json'' \<in> set (http_gets (log not_found_world)) \<and>
   400 \<le> fst (requests_get not_found_env ''up/noarch/patch_instructions.json'') \<and>
   fst (requests_get not_found_env ''up/noarch/patch_instructions.json'') < 600"
proof -
  have pre: "fst (sync fresh_env (One ''up'') ''m'' (One ''a'') (Some (Many [''linux'', ''noarch''])) False
               True [] empty_world) = None"
    by (simp add: sync_two_subdirs_no_index)
  have fs: "finder_search fresh_env [''up''] [''linux'', ''noarch''] [''a''] = Inr [rec_b, rec_a]"
    by (simp add: fresh_env_def demo_env_def)
  have sub: "subdir rec_a = ''noarch'' \<and> subdir rec_b = ''noarch''"
    by (simp add: rec_a_def rec_b_def)
  have nd: "[''m'', ''linux'', ''patch_instructions.json''] \<notin> set (download_targets (log two_subdirs_world))"
    "[''m'', ''noarch'', ''patch_instructions.json''] \<notin> set (download_targets (log two_subdirs_world))"
    by (simp_all add: two_subdirs_world_def)
  have env: "all_channel_urls fresh_env ''up'' sd @ ''/patch_instructions.json''
               = ''up/'' @ sd @ ''/patch_instructions.json''"
    "snd (requests_get fresh_env u) = ''{ }''" for sd u
    by (simp_all add: fresh_env_def demo_env_def)
  have pm: "Path ''m'' = [''m'']" by (simp add: Path_def)
  from sync_fetches_patch_instructions [OF sync_two_subdirs] pre obtain evs where
    l: "log two_subdirs_world = log empty_world @ evs" and
    g: "\<forall>sd \<in> set [''linux'', ''noarch'']. \<forall>c \<in> set [''up''].
            all_channel_urls fresh_env c sd @ ''/patch_instructions.json'' \<in> set (http_gets evs) \<and>
            (lookup two_subdirs_world ((if ([] :: string) = [] then Path ''m'' else Path [])
                  @ [sd, ''patch_instructions.json''])
               = Some (File (snd (requests_get fresh_env
                    (all_channel_urls fresh_env (last [''up'']) sd @ ''/patch_instructions.json'')))) \<or>
             (if ([] :: string) = [] then Path ''m'' else Path []) @ [sd, ''patch_instructions.json'']
               \<in> set (download_targets evs))"
    by auto
  from l have e: "evs = log two_subdirs_world" by (simp add: empty_world_def)
  from g nd have ok:
    "''up/linux/patch_instructions.json'' \<in> set (http_gets (log two_subdirs_world)) \<and>
     lookup two_subdirs_world [''m'', ''linux'', ''patch_instructions.json''] = Some (File ''{ }'') \<and>
     ''up/noarch/patch_instructions.json'' \<in> set (http_gets (log two_subdirs_world)) \<and>
     lookup two_subdirs_world [''m'', ''noarch'', ''patch_instructions.json''] = Some (File ''{ }'')"
    unfolding e by (simp add: env pm)
  have ns: "400 \<le> fst (requests_get not_found_env ''up/noarch/patch_instructions.json'') \<and>
            fst (requests_get not_found_env ''up/noarch/patch_instructions.json'') < 600"
    by (simp add: not_found_env_def)
  from sync_fetches_patch_instructions [OF sync_not_found] obtain evs' where
    l': "log not_found_world = log empty_world @ evs'" and
    h': "\<forall>u \<in> set (http_gets evs').
           400 \<le> fst (requests_get not_found_env u) \<and> fst (requests_get not_found_env u) < 600
         \<longrightarrow> Some (HTTPError 404) = Some (HTTPError (fst (requests_get not_found_env u)))"
    by auto
  have "''up/noarch/patch_instructions.json'' \<in> set (http_gets (log not_found_world))"
    by (simp add: not_found_world_def)
  with ok pre fs sub ns sync_two_subdirs sync_not_found show ?thesis by simp
qed

text \<open>
  Claim C8. The downloads of a run of \<open>sync\<close> are downloads of added records and are
  made in ascending order of file name: in the sequence of paths given to the
  downloader, whose last component is the file name of the record, the file names
  never decrease. The order on strings is the lexicographic order on characters by
  code, which is the order Python's \<open>sorted\<close> uses.
\<close>

theorem sync_downloads_in_filename_order:
  assumes "sync E channels local specs subdirs index verify patch w = (r, w')"
  shows "\<exists>evs. log w' = log w @ evs \<and>
     sorted (map last (download_targets evs)) \<and>
     (\<forall>t \<in> set (download_targets evs). \<exists>added removed.
         diff E local (Many (ensure_list channels)) specs (Some (Many (ensure_subdirs E subdirs)))
           = Inr (added, removed) \<and>
         (\<exists>record \<in> set added. t = write_target local patch @ [subdir record, fn record] \<and>
                                  last t = fn record))"
proof -
  from sync_run [OF assms] obtain evs where
    l: "log w' = log w @ evs" and s: "sorted (map last (download_targets evs))" and
    m: "\<forall>t \<in> set (download_targets evs). \<exists>added removed.
         diff E local (Many (ensure_list channels)) specs (Some (Many (ensure_subdirs E subdirs)))
           = Inr (added, removed) \<and>
         (\<exists>y \<in> set added. t = write_target local patch @ [subdir y, fn y])"
    by blast
  have "\<forall>t \<in> set (download_targets evs). \<exists>added removed.
         diff E local (Many (ensure_list channels)) specs (Some (Many (ensure_subdirs E subdirs)))
           = Inr (added, removed) \<and>
         (\<exists>y \<in> set added. t = write_target local patch @ [subdir y, fn y] \<and> last t = fn y)"
  proof
    fix t assume "t \<in> set (download_targets evs)"
    with m obtain added removed y where
      "diff E local (Many (ensure_list channels)) specs (Some (Many (ensure_subdirs E subdirs)))
           = Inr (added, removed)" and "y \<in> set added" and
      "t = write_target local patch @ [subdir y, fn y]"
      by blast
    then show "\<exists>added removed.
         diff E local (Many (ensure_list channels)) specs (Some (Many (ensure_subdirs E subdirs)))
           = Inr (added, removed) \<and>
         (\<exists>y \<in> set added. t = write_target local patch @ [subdir y, fn y] \<and> last t = fn y)"
      by (intro exI [of _ added] exI [of _ removed]) auto
  qed
  with l s show ?thesis by (intro exI [of _ evs]) simp
qed

theorem sync_downloads_in_filename_order_witness:
  "sync fresh_env (One ''up'') ''m'' (One ''a'') None True True ''p'' empty_world
     = (None, fresh_patch_world) \<and>
   finder_search fresh_env [''up''] [''noarch''] [''a''] = Inr [rec_b, rec_a] \<and>
   download_targets (log fresh_patch_world)
     = [[''p'', ''noarch'', ''a.tar''], [''p'', ''noarch'', ''b.tar'']] \<and>
   sorted (map last (download_targets (log fresh_patch_world)))"
proof -
  from sync_downloads_in_filename_order [OF sync_fresh_patch] obtain evs where
    l: "log fresh_patch_world = log empty_world @ evs" and
    s: "sorted (map last (download_targets evs))"
    by blast
  from l have "evs = log fresh_patch_world" by (simp add: empty_world_def)
  with s have "sorted (map last (download_targets (log fresh_patch_world)))" by simp
  moreover have "finder_search fresh_env [''up''] [''noarch''] [''a''] = Inr [rec_b, rec_a]"
    by (simp add: fresh_env_def demo_env_def)
  moreover have "download_targets (log fresh_patch_world)
     = [[''p'', ''noarch'', ''a.tar''], [''p'', ''noarch'', ''b.tar'']]"
    by (simp add: fresh_patch_world_def)
  ultimately show ?thesis using sync_fresh_patch by simp
qed

end
